theory Spec2Isabelle
  imports Main
begin

section \<open>Attribute values and names\<close>

text \<open>
  Attribute values of both trees are JSON data: \<open>null\<close>, booleans, integers, strings and
  objects of these. Numbers that are not integers, \<open>NaN\<close> among them, and arrays are not
  modelled. An object is an association list, in the order of its keys. The JavaScript
  comparison \<open>===\<close> on such immutable data is modelled by HOL equality. A lookup that
  yields \<open>undefined\<close> in the source yields \<open>None\<close> here.
\<close>

datatype jsval =
    JNull
  | JBool bool
  | JNum int
  | JStr string
  | JObj "(string \<times> jsval) list"

type_synonym attrs = "(string \<times> jsval) list"

definition MarkPrefix :: string where
  "MarkPrefix = ''_mark_''"

definition startsWith :: "string \<Rightarrow> string \<Rightarrow> bool" where
  "startsWith s p = (take (length p) s = p)"

fun isObject :: "jsval option \<Rightarrow> bool" where
  "isObject (Some (JObj _)) = True"
| "isObject _ = False"

subsection \<open>Mark-name decoding\<close>

text \<open>
  \<open>hashedMarkNameRegex = /(.*)(--[a-zA-Z0-9+/=]{8})$/\<close>. The dot of a JavaScript regular
  expression matches every character but a line terminator; of those, line feed and
  carriage return are characters of \<open>string\<close>. The second group has a fixed length of ten
  and is anchored at the end of the input, so a match that starts at a given position is
  unique: the first group is everything from that position up to the last ten characters,
  and it must be free of line terminators. \<open>exec\<close> tries the start positions from left to
  right.
\<close>

definition isLineTerminator :: "char \<Rightarrow> bool" where
  "isLineTerminator c = (c = CHR 0x0A \<or> c = CHR 0x0D)"

definition isHashChar :: "char \<Rightarrow> bool" where
  "isHashChar c =
     (let n = (of_char c :: nat) in
        (97 \<le> n \<and> n \<le> 122) \<or> (65 \<le> n \<and> n \<le> 90) \<or> (48 \<le> n \<and> n \<le> 57) \<or>
        c = CHR ''+'' \<or> c = CHR ''/'' \<or> c = CHR ''='')"

definition isHashSuffix :: "string \<Rightarrow> bool" where
  "isHashSuffix s = (length s = 10 \<and> take 2 s = ''--'' \<and> list_all isHashChar (drop 2 s))"

definition matchHere :: "string \<Rightarrow> string option" where
  "matchHere s =
     (let pre = take (length s - 10) s in
        if isHashSuffix (drop (length s - 10) s) \<and> list_all (\<lambda>c. \<not> isLineTerminator c) pre
        then Some pre else None)"

fun regexExec :: "string \<Rightarrow> string option" where
  "regexExec [] = matchHere []"
| "regexExec (c # cs) =
     (case matchHere (c # cs) of Some g \<Rightarrow> Some g | None \<Rightarrow> regexExec cs)"

definition yattr2markname :: "string \<Rightarrow> string" where
  "yattr2markname attrName = (case regexExec attrName of Some g \<Rightarrow> g | None \<Rightarrow> attrName)"

text \<open>The part of a string that follows its last line terminator.\<close>

definition afterLastLineTerminator :: "string \<Rightarrow> string" where
  "afterLastLineTerminator s = rev (takeWhile (\<lambda>c. \<not> isLineTerminator c) (rev s))"

definition endsWithHash :: "string \<Rightarrow> bool" where
  "endsWithHash s = isHashSuffix (drop (length s - 10) s)"

section \<open>Restoring a relative selection\<close>

text \<open>
  The editing surface's selection constructors are external: \<open>NodeSelection.create\<close> and
  \<open>TextSelection.between\<close> (with the two \<open>tr.doc.resolve\<close> calls) may throw, which is
  the value \<open>None\<close>. \<open>relativePositionToAbsolutePosition\<close> is the parameter \<open>resolve\<close>.
  The transaction's selection is \<open>None\<close> while no selection has been set on it.
\<close>

record 'r relativeSelection =
  sel_type :: string
  sel_anchor :: "'r option"
  sel_head :: "'r option"

record 's selectionApi =
  newAllSelection :: 's
  nodeSelectionCreate :: "int option \<Rightarrow> 's option"
  textSelectionBetween :: "int \<Rightarrow> int \<Rightarrow> 's option"

datatype pm_error = SelectionError

definition restoreRelativeSelection ::
  "'s selectionApi \<Rightarrow> ('r \<Rightarrow> int option) \<Rightarrow> 's option \<Rightarrow> 'r relativeSelection option
     \<Rightarrow> pm_error + 's option" where
  "restoreRelativeSelection api resolve trSel relSel =
     (case relSel of
        None \<Rightarrow> Inr trSel
      | Some rs \<Rightarrow>
          (case (sel_anchor rs, sel_head rs) of
             (Some ra, Some rh) \<Rightarrow>
               if sel_type rs = ''all'' then Inr (Some (newAllSelection api))
               else if sel_type rs = ''node'' then
                 (case nodeSelectionCreate api (resolve ra) of
                    None \<Rightarrow> Inl SelectionError
                  | Some s \<Rightarrow> Inr (Some s))
               else
                 (case (resolve ra, resolve rh) of
                    (Some anchor, Some head) \<Rightarrow>
                      (case textSelectionBetween api anchor head of
                         None \<Rightarrow> Inl SelectionError
                       | Some s \<Rightarrow> Inr (Some s))
                  | _ \<Rightarrow> Inr trSel)
           | _ \<Rightarrow> Inr trSel))"

text \<open>A concrete selection interface, for evaluating the function.\<close>

datatype ex_selection = ExAll | ExNode "int option" | ExText int int

definition exApi :: "ex_selection selectionApi" where
  "exApi = \<lparr> newAllSelection = ExAll,
             nodeSelectionCreate = (\<lambda>p. Some (ExNode p)),
             textSelectionBetween = (\<lambda>a h. Some (ExText a h)) \<rparr>"

section \<open>Snapshots and visibility\<close>

text \<open>
  An item of the shared tree has a creation id (client, clock) and a tombstone flag. A
  snapshot is a delete set (ranges of deleted clocks per client) and a state vector.
\<close>

record yitem =
  item_client :: nat
  item_clock :: nat
  item_deleted :: bool

record snapshot =
  snap_ds :: "(nat \<times> nat \<times> nat) list"
  snap_sv :: "(nat \<times> nat) list"

definition isDeleted :: "(nat \<times> nat \<times> nat) list \<Rightarrow> yitem \<Rightarrow> bool" where
  "isDeleted ds it =
     list_ex (\<lambda>(c, k, len). c = item_client it \<and> k \<le> item_clock it \<and> item_clock it < k + len) ds"

definition isVisible :: "yitem \<Rightarrow> snapshot option \<Rightarrow> bool" where
  "isVisible it snap =
     (case snap of
        None \<Rightarrow> \<not> item_deleted it
      | Some s \<Rightarrow>
          (case map_of (snap_sv s) (item_client it) of
             None \<Rightarrow> False
           | Some clk \<Rightarrow> clk > item_clock it \<and> \<not> isDeleted (snap_ds s) it))"

definition typeListToArraySnapshot :: "('y \<Rightarrow> yitem) \<Rightarrow> 'y list \<Rightarrow> snapshot \<Rightarrow> 'y list" where
  "typeListToArraySnapshot itemOf ts s = filter (\<lambda>t. isVisible (itemOf t) (Some s)) ts"

text \<open>
  The fragment content of \<open>_renderSnapshot\<close>: \<open>create\<close> stands for the call of
  \<open>createNodeFromYElement\<close> with a scratch mapping, which yields \<open>None\<close> for \<open>null\<close>.
\<close>

definition renderedIn :: "yitem \<Rightarrow> snapshot \<Rightarrow> snapshot \<Rightarrow> bool" where
  "renderedIn it snap prevSnap =
     (\<not> item_deleted it \<or> isVisible it (Some snap) \<or> isVisible it (Some prevSnap))"

definition renderSnapshotContent ::
  "('y \<Rightarrow> yitem) \<Rightarrow> ('y \<Rightarrow> 'n option) \<Rightarrow> 'y list \<Rightarrow> snapshot \<Rightarrow> snapshot \<Rightarrow> 'n list" where
  "renderSnapshotContent itemOf create ts snap prevSnap =
     List.map_filter
       (\<lambda>t. if renderedIn (itemOf t) snap prevSnap then create t else None)
       (typeListToArraySnapshot itemOf ts \<lparr> snap_ds = snap_ds prevSnap, snap_sv = snap_sv snap \<rparr>)"

text \<open>
  A pair of snapshots of one document, the previous one taken before the current one: the
  state vector of the previous one lies below that of the current one, an item that the
  previous one names deleted the current one names deleted too, and an item that the
  current one names deleted is deleted in the document that holds the history.
\<close>

definition snapshotsInOrder :: "('y \<Rightarrow> yitem) \<Rightarrow> 'y list \<Rightarrow> snapshot \<Rightarrow> snapshot \<Rightarrow> bool" where
  "snapshotsInOrder itemOf ts snap prevSnap =
     (list_all (\<lambda>(c, k). case map_of (snap_sv snap) c of None \<Rightarrow> False | Some k' \<Rightarrow> k \<le> k')
        (snap_sv prevSnap) \<and>
      list_all (\<lambda>t. (isDeleted (snap_ds prevSnap) (itemOf t) \<longrightarrow> isDeleted (snap_ds snap) (itemOf t)) \<and>
                    (isDeleted (snap_ds snap) (itemOf t) \<longrightarrow> item_deleted (itemOf t))) ts)"

text \<open>
  A history of four items of one client and two snapshots of it: the first item was
  deleted before the previous snapshot, the second between the two, the third was
  inserted between the two, and the fourth after the current one.
\<close>

definition exHistory :: "yitem list" where
  "exHistory = [\<lparr> item_client = 1, item_clock = 0, item_deleted = True \<rparr>,
                \<lparr> item_client = 1, item_clock = 1, item_deleted = True \<rparr>,
                \<lparr> item_client = 1, item_clock = 2, item_deleted = False \<rparr>,
                \<lparr> item_client = 1, item_clock = 3, item_deleted = False \<rparr>]"

definition exLater :: snapshot where
  "exLater = \<lparr> snap_ds = [(1, 0, 2)], snap_sv = [(1, 3)] \<rparr>"

definition exEarlier :: snapshot where
  "exEarlier = \<lparr> snap_ds = [(1, 0, 1)], snap_sv = [(1, 2)] \<rparr>"

section \<open>The editable tree\<close>

text \<open>
  A mark has the name of its type and its attributes. A node of the editable tree is a
  text node (text and marks) or a node with a type name, attributes, content and marks.
\<close>

record mark =
  mark_name :: string
  mark_attrs :: attrs

datatype pnode =
    PText string "mark list"
  | PElement string attrs "pnode list" "mark list"

fun isText :: "pnode \<Rightarrow> bool" where
  "isText (PText _ _) = True"
| "isText (PElement _ _ _ _) = False"

fun pTypeName :: "pnode \<Rightarrow> string" where
  "pTypeName (PText _ _) = ''text''"
| "pTypeName (PElement name _ _ _) = name"

fun pAttrs :: "pnode \<Rightarrow> attrs" where
  "pAttrs (PText _ _) = []"
| "pAttrs (PElement _ a _ _) = a"

fun pContent :: "pnode \<Rightarrow> pnode list" where
  "pContent (PText _ _) = []"
| "pContent (PElement _ _ c _) = c"

fun pMarks :: "pnode \<Rightarrow> mark list" where
  "pMarks (PText _ ms) = ms"
| "pMarks (PElement _ _ _ ms) = ms"

fun pTextOf :: "pnode \<Rightarrow> string" where
  "pTextOf (PText s _) = s"
| "pTextOf (PElement _ _ _ _) = []"

text \<open>
  A slot of the normalized content is a node, or the list of the text nodes of a run;
  the same two shapes are the values of the mapping table.
\<close>

datatype pcontent = PNodeC pnode | PTexts "pnode list"

function normalizeContent :: "pnode list \<Rightarrow> pcontent list" where
  "normalizeContent [] = []"
| "normalizeContent (n # c) =
     (if isText n
      then PTexts (takeWhile isText (n # c)) # normalizeContent (dropWhile isText c)
      else PNodeC n # normalizeContent c)"
  by pat_completeness auto
termination
  by (relation "measure length") (auto simp: length_dropWhile_le less_Suc_eq_le)

definition normalizePNodeContent :: "pnode \<Rightarrow> pcontent list" where
  "normalizePNodeContent pnode = normalizeContent (pContent pnode)"

subsection \<open>Objects\<close>

text \<open>Assignment to a key keeps the place of a key that is present and appends a new one.\<close>

fun objSet :: "(string \<times> 'v) list \<Rightarrow> string \<Rightarrow> 'v \<Rightarrow> (string \<times> 'v) list" where
  "objSet [] k v = [(k, v)]"
| "objSet ((k', v') # kvs) k v = (if k' = k then (k, v) # kvs else (k', v') # objSet kvs k v)"

definition objDelete :: "(string \<times> 'v) list \<Rightarrow> string \<Rightarrow> (string \<times> 'v) list" where
  "objDelete kvs k = filter (\<lambda>(k', _). k' \<noteq> k) kvs"

definition objAssign :: "(string \<times> 'v) list \<Rightarrow> (string \<times> 'v) list \<Rightarrow> (string \<times> 'v) list" where
  "objAssign a b = foldl (\<lambda>acc (k, v). objSet acc k v) a b"

definition markToJSON :: "mark \<Rightarrow> jsval" where
  "markToJSON m =
     JObj ((''type'', JStr (mark_name m)) #
           (if mark_attrs m = [] then [] else [(''attrs'', JObj (mark_attrs m))]))"

definition nodeMarksToAttributes :: "mark list \<Rightarrow> attrs" where
  "nodeMarksToAttributes marks =
     foldl (\<lambda>pattrs m.
              if mark_name m \<noteq> ''ychange''
              then objSet pattrs (MarkPrefix @ mark_name m) (markToJSON m)
              else pattrs) [] marks"

section \<open>The shared tree\<close>

text \<open>
  A shared type has an identity (the key of the mapping table) and, but for the root
  fragment, an item. The children of a fragment or element are all its items in document
  order, tombstones included. The content of a text run is its visible characters,
  each with its formatting attributes (mark attributes under mark names);
  \<open>toDelta\<close> groups them into maximal segments of equal attributes.
\<close>

type_synonym textattrs = "(string \<times> attrs) list"

datatype ytype =
    XmlFragment nat "ytype list"
  | XmlElement nat yitem string attrs "ytype list"
  | XmlText nat yitem "(char \<times> textattrs) list"
  | XmlHook nat yitem

fun yref :: "ytype \<Rightarrow> nat" where
  "yref (XmlFragment r _) = r"
| "yref (XmlElement r _ _ _ _) = r"
| "yref (XmlText r _ _) = r"
| "yref (XmlHook r _) = r"

fun yDeleted :: "ytype \<Rightarrow> bool" where
  "yDeleted (XmlFragment _ _) = False"
| "yDeleted (XmlElement _ it _ _ _) = item_deleted it"
| "yDeleted (XmlText _ it _) = item_deleted it"
| "yDeleted (XmlHook _ it) = item_deleted it"

fun yClient :: "ytype \<Rightarrow> nat option" where
  "yClient (XmlFragment _ _) = None"
| "yClient (XmlElement _ it _ _ _) = Some (item_client it)"
| "yClient (XmlText _ it _) = Some (item_client it)"
| "yClient (XmlHook _ it) = Some (item_client it)"

fun isXmlElement :: "ytype \<Rightarrow> bool" where
  "isXmlElement (XmlElement _ _ _ _ _) = True"
| "isXmlElement _ = False"

fun isXmlText :: "ytype \<Rightarrow> bool" where
  "isXmlText (XmlText _ _ _) = True"
| "isXmlText _ = False"

fun isXmlHook :: "ytype \<Rightarrow> bool" where
  "isXmlHook (XmlHook _ _) = True"
| "isXmlHook _ = False"

fun nodeName :: "ytype \<Rightarrow> string option" where
  "nodeName (XmlElement _ _ name _ _) = Some name"
| "nodeName _ = None"

fun getAttributes :: "ytype \<Rightarrow> attrs" where
  "getAttributes (XmlElement _ _ _ a _) = a"
| "getAttributes _ = []"

fun yItems :: "ytype \<Rightarrow> ytype list" where
  "yItems (XmlFragment _ cs) = cs"
| "yItems (XmlElement _ _ _ _ cs) = cs"
| "yItems _ = []"

definition visible :: "ytype list \<Rightarrow> ytype list" where
  "visible ts = filter (\<lambda>t. \<not> yDeleted t) ts"

definition toArray :: "ytype \<Rightarrow> ytype list" where
  "toArray y = visible (yItems y)"

text \<open>Order-insensitive equality of two attribute objects of a text run.\<close>

definition sameTextAttrs :: "textattrs \<Rightarrow> textattrs \<Rightarrow> bool" where
  "sameTextAttrs a b =
     (length a = length b \<and> list_all (\<lambda>(k, v). map_of b k = Some v) a)"

fun groupChars :: "(char \<times> textattrs) list \<Rightarrow> (string \<times> textattrs) list" where
  "groupChars [] = []"
| "groupChars ((c, a) # cs) =
     (case groupChars cs of
        [] \<Rightarrow> [([c], a)]
      | (s, a') # segs \<Rightarrow>
          if sameTextAttrs a a' then (c # s, a) # segs else ([c], a) # (s, a') # segs)"

fun toDelta :: "ytype \<Rightarrow> (string \<times> textattrs) list" where
  "toDelta (XmlText _ _ cs) = groupChars cs"
| "toDelta _ = []"

definition spread :: "(string \<times> textattrs) list \<Rightarrow> (char \<times> textattrs) list" where
  "spread delta = concat (map (\<lambda>(s, a). map (\<lambda>c. (c, a)) s) delta)"

section \<open>The structural-equality oracle\<close>

function equalAttrs :: "attrs \<Rightarrow> attrs option \<Rightarrow> bool" where
  "equalAttrs pattrs yattrs =
     (let keys = filter (\<lambda>(key, l). l \<noteq> JNull) pattrs in
        length keys =
          (case yattrs of
             None \<Rightarrow> 0
           | Some ya \<Rightarrow>
               length (filter (\<lambda>(key, r). r \<noteq> JNull \<and> \<not> startsWith key MarkPrefix) ya)) \<and>
        list_all
          (\<lambda>(key, l).
             let r = (case yattrs of None \<Rightarrow> None | Some ya \<Rightarrow> map_of ya key) in
               key = ''ychange'' \<or> Some l = r \<or>
               (case (l, r) of
                  (JObj lo, Some (JObj ro)) \<Rightarrow> equalAttrs lo (Some ro)
                | _ \<Rightarrow> False))
          keys)"
  by pat_completeness auto
termination
proof (relation "measure (\<lambda>(pattrs, yattrs). size (JObj pattrs))")
  show "wf (measure (\<lambda>(pattrs, yattrs). size (JObj pattrs)))" by simp
next
  fix pattrs :: attrs and yattrs :: "attrs option" and keys kl key l r x1 lo y ro
  assume "keys = filter (\<lambda>(key, l). l \<noteq> JNull) pattrs" "kl \<in> set keys" "(key, l) = kl"
    "(x1, y) = (l, r)" "x1 = JObj lo"
  then have "(key, JObj lo) \<in> set pattrs" by auto
  then have "size (JObj lo) < size (JObj pattrs)"
    by (induction pattrs) auto
  then show "((lo, Some ro), pattrs, yattrs) \<in> measure (\<lambda>(pattrs, yattrs). size (JObj pattrs))"
    by simp
qed

declare equalAttrs.simps [simp del]

text \<open>\<open>equalityDeep\<close> of lib0 on JSON data; an argument \<open>None\<close> is \<open>undefined\<close>.\<close>

function equalityDeep :: "jsval \<Rightarrow> jsval \<Rightarrow> bool" where
  "equalityDeep a b =
     (a = b \<or>
      (case (a, b) of
         (JObj xs, JObj ys) \<Rightarrow>
           length xs = length ys \<and>
           list_all (\<lambda>(k, v). case map_of ys k of None \<Rightarrow> False | Some w \<Rightarrow> equalityDeep v w) xs
       | _ \<Rightarrow> False))"
  by pat_completeness auto
termination
proof (relation "measure (\<lambda>(a, b). size a)")
  show "wf (measure (\<lambda>(a, b). size a))" by simp
next
  fix a b :: jsval and x y xs ys kv k v w
  assume "(x, y) = (a, b)" "x = JObj xs" "kv \<in> set xs" "(k, v) = kv"
  then have "(k, v) \<in> set xs" "a = JObj xs" by auto
  then have "size v < size a"
    by (induction xs arbitrary: a) auto
  then show "((v, w), a, b) \<in> measure (\<lambda>(a, b). size a)" by simp
qed

declare equalityDeep.simps [simp del]

definition equalityDeepOpt :: "jsval option \<Rightarrow> jsval option \<Rightarrow> bool" where
  "equalityDeepOpt l r =
     (l = r \<or> (case (l, r) of (Some a, Some b) \<Rightarrow> equalityDeep a b | _ \<Rightarrow> False))"

definition equalMarks :: "mark list \<Rightarrow> attrs \<Rightarrow> bool" where
  "equalMarks pmarks yattrs =
     (let keys = filter (\<lambda>(key, r). startsWith key MarkPrefix) yattrs;
          pMarkAttr = nodeMarksToAttributes pmarks
      in length keys = length pmarks \<and>
         list_all (\<lambda>(key, r). key = ''ychange'' \<or> equalityDeepOpt (map_of pMarkAttr key) (Some r))
           keys)"

definition equalYTextPText :: "ytype \<Rightarrow> pnode list \<Rightarrow> bool" where
  "equalYTextPText ytext ptexts =
     (let delta = toDelta ytext in
        length delta = length ptexts \<and>
        list_all
          (\<lambda>((ins, dattrs), p).
             ins = pTextOf p \<and>
             length dattrs = length (pMarks p) \<and>
             list_all
               (\<lambda>(yattrname, attr).
                  let markname = yattr2markname yattrname in
                    equalAttrs attr
                      (map_option mark_attrs (find (\<lambda>m. mark_name m = markname) (pMarks p))))
               dattrs)
          (zip delta ptexts))"

fun matchNodeName :: "ytype \<Rightarrow> pcontent \<Rightarrow> bool" where
  "matchNodeName yElement (PNodeC pNode) = (nodeName yElement = Some (pTypeName pNode))"
| "matchNodeName yElement (PTexts _) = False"

lemma size_yItems: "c \<in> set (yItems y) \<Longrightarrow> size c < size y"
  by (cases y) (auto simp: less_Suc_eq_le dest: size_list_estimation')

function equalYTypePNode :: "ytype \<Rightarrow> pcontent \<Rightarrow> bool" where
  "equalYTypePNode ytype pnode =
     (if isXmlElement ytype \<and> matchNodeName ytype pnode
      then (case pnode of
              PTexts _ \<Rightarrow> False
            | PNodeC p \<Rightarrow>
                let normalizedContent = normalizePNodeContent p in
                  length (toArray ytype) = length normalizedContent \<and>
                  equalAttrs (pAttrs p) (Some (getAttributes ytype)) \<and>
                  equalMarks (pMarks p) (getAttributes ytype) \<and>
                  list_all (\<lambda>(ychild, pc). equalYTypePNode ychild pc)
                    (zip (toArray ytype) normalizedContent))
      else (case pnode of
              PTexts ps \<Rightarrow> isXmlText ytype \<and> equalYTextPText ytype ps
            | PNodeC _ \<Rightarrow> False))"
  by pat_completeness auto

termination
proof (relation "measure (\<lambda>(y, p). size y)")
  show "wf (measure (\<lambda>(y, p). size y))" by simp
next
  fix ytype pnode p normalizedContent yp ychild pc
  assume "yp \<in> set (zip (toArray ytype) normalizedContent)" "(ychild, pc) = yp"
  then have "ychild \<in> set (toArray ytype)" by (auto dest: set_zip_leftD)
  then have "ychild \<in> set (yItems ytype)" by (simp add: toArray_def visible_def)
  then show "((ychild, pc), ytype, pnode) \<in> measure (\<lambda>(y, p). size y)"
    by (simp add: size_yItems)
qed

declare equalYTypePNode.simps [simp del]

section \<open>The mapping table and the child alignment\<close>

record meta =
  mapping :: "nat \<Rightarrow> pcontent option"
  isOMark :: "string \<Rightarrow> bool option"

definition mappedIdentity :: "pcontent option \<Rightarrow> pcontent \<Rightarrow> bool" where
  "mappedIdentity mapped pcontent =
     (mapped = Some pcontent \<or>
      (case (mapped, pcontent) of
         (Some (PTexts ms), PTexts ps) \<Rightarrow>
           length ms = length ps \<and> list_all (\<lambda>(a, p). p = a) (zip ms ps)
       | _ \<Rightarrow> False))"

record equality =
  equalityFactor :: nat
  foundMappedChild :: bool

text \<open>The two loops of \<open>computeChildEqualityFactor\<close>, on \<open>left\<close>, \<open>right\<close> and the flag.\<close>

function factorLeft ::
  "meta \<Rightarrow> ytype list \<Rightarrow> pcontent list \<Rightarrow> nat \<Rightarrow> nat \<Rightarrow> bool \<Rightarrow> nat \<times> bool" where
  "factorLeft m yChildren pChildren minCnt left found =
     (if left < minCnt then
        (let leftY = yChildren ! left; leftP = pChildren ! left in
           if mappedIdentity (mapping m (yref leftY)) leftP
           then factorLeft m yChildren pChildren minCnt (left + 1) True
           else if \<not> equalYTypePNode leftY leftP then (left, found)
           else factorLeft m yChildren pChildren minCnt (left + 1) found)
      else (left, found))"
  by pat_completeness auto
termination
  by (relation "measure (\<lambda>(m, ys, ps, minCnt, left, found). minCnt - left)") auto

function factorRight ::
  "meta \<Rightarrow> ytype list \<Rightarrow> pcontent list \<Rightarrow> nat \<Rightarrow> nat \<Rightarrow> nat \<Rightarrow> bool \<Rightarrow> nat \<times> bool" where
  "factorRight m yChildren pChildren minCnt left right found =
     (if left + right < minCnt then
        (let rightY = yChildren ! (length yChildren - right - 1);
             rightP = pChildren ! (length pChildren - right - 1) in
           if mappedIdentity (mapping m (yref rightY)) rightP
           then factorRight m yChildren pChildren minCnt left (right + 1) True
           else if \<not> equalYTypePNode rightY rightP then (right, found)
           else factorRight m yChildren pChildren minCnt left (right + 1) found)
      else (right, found))"
  by pat_completeness auto
termination
  by (relation "measure (\<lambda>(m, ys, ps, minCnt, left, right, found). minCnt - (left + right))") auto

declare factorLeft.simps [simp del] factorRight.simps [simp del]

definition computeChildEqualityFactor :: "ytype \<Rightarrow> pnode \<Rightarrow> meta \<Rightarrow> equality" where
  "computeChildEqualityFactor ytype pnode m =
     (let yChildren = toArray ytype;
          pChildren = normalizePNodeContent pnode;
          pChildCnt = length pChildren;
          yChildCnt = length yChildren;
          minCnt = min yChildCnt pChildCnt;
          (left, found1) = factorLeft m yChildren pChildren minCnt 0 False;
          (right, found2) = factorRight m yChildren pChildren minCnt left 0 found1
      in \<lparr> equalityFactor = left + right, foundMappedChild = found2 \<rparr>)"

text \<open>
  A shared element with two children, and an editable node with the same two children
  and one more between them.
\<close>

definition liveItem :: "nat \<Rightarrow> nat \<Rightarrow> yitem" where
  "liveItem c k = \<lparr> item_client = c, item_clock = k, item_deleted = False \<rparr>"

definition emptyMeta :: meta where
  "emptyMeta = \<lparr> mapping = (\<lambda>_. None), isOMark = (\<lambda>_. None) \<rparr>"

definition exY2 :: ytype where
  "exY2 = XmlElement 0 (liveItem 1 0) ''doc'' []
            [XmlElement 1 (liveItem 1 1) ''paragraph'' [] [],
             XmlElement 2 (liveItem 1 2) ''heading'' [] []]"

definition exP3 :: pnode where
  "exP3 = PElement ''doc'' []
            [PElement ''paragraph'' [] [] [],
             PElement ''image'' [] [] [],
             PElement ''heading'' [] [] []] []"

section \<open>The forward synchronizer\<close>

text \<open>
  The static environment: the local document's client id, whether a mark type excludes
  itself, and \<open>utils.hashOfJSON\<close>, which is not among the sources and is taken as a
  parameter. Every shared type object has an identity, allocated when the object is
  constructed; the document allocates the clock of an item when a type is integrated.
  The state that the synchronizers thread is the binding metadata and the two counters.
\<close>

record env =
  clientID :: nat
  excludesSelf :: "string \<Rightarrow> bool"
  hashOfJSON :: "jsval \<Rightarrow> string"

record ydoc =
  nextRef :: nat
  nextClock :: nat

type_synonym state = "meta \<times> ydoc"

datatype error = NodeNameMismatch | TypeError | MethodUnimplemented

definition mappingSet :: "nat \<Rightarrow> pcontent \<Rightarrow> state \<Rightarrow> state" where
  "mappingSet r v st = ((fst st)\<lparr> mapping := (mapping (fst st))(r \<mapsto> v) \<rparr>, snd st)"

definition mappingDelete :: "nat \<Rightarrow> state \<Rightarrow> state" where
  "mappingDelete r st = ((fst st)\<lparr> mapping := (mapping (fst st))(r := None) \<rparr>, snd st)"

text \<open>\<open>new Y.XmlElement\<close> and \<open>new Y.XmlText\<close>: a new object with an identity of its own.\<close>

definition newType :: "state \<Rightarrow> nat \<times> state" where
  "newType st = (nextRef (snd st), (fst st, (snd st)\<lparr> nextRef := nextRef (snd st) + 1 \<rparr>))"

subsection \<open>Marks as attributes of a text run\<close>

definition marksToAttributes :: "env \<Rightarrow> mark list \<Rightarrow> meta \<Rightarrow> textattrs \<times> meta" where
  "marksToAttributes e marks m =
     foldl
       (\<lambda>(pattrs, m) mk.
          if mark_name mk \<noteq> ''ychange'' then
            (let (isOverlapping, m') =
                   (case isOMark m (mark_name mk) of
                      Some b \<Rightarrow> (b, m)
                    | None \<Rightarrow>
                        (\<not> excludesSelf e (mark_name mk),
                         m\<lparr> isOMark := (isOMark m)(mark_name mk \<mapsto> \<not> excludesSelf e (mark_name mk)) \<rparr>))
             in (objSet pattrs
                   (if isOverlapping
                    then mark_name mk @ ''--'' @ hashOfJSON e (markToJSON mk)
                    else mark_name mk)
                   (mark_attrs mk),
                 m'))
          else (pattrs, m))
       ([], m) marks"

subsection \<open>Operations of the shared types\<close>

text \<open>
  Deleting a type deletes its item and its content. Indices of \<open>get\<close>, \<open>delete\<close>,
  \<open>insert\<close> and \<open>slice\<close> count the visible children; an insertion at index zero goes
  to the start of the list, one at a later index right behind the visible child before
  it.
\<close>

fun deleteType :: "ytype \<Rightarrow> ytype" where
  "deleteType (XmlFragment r cs) = XmlFragment r cs"
| "deleteType (XmlElement r it name a cs) =
     XmlElement r (it\<lparr> item_deleted := True \<rparr>) name [] (map deleteType cs)"
| "deleteType (XmlText r it cs) = XmlText r (it\<lparr> item_deleted := True \<rparr>) []"
| "deleteType (XmlHook r it) = XmlHook r (it\<lparr> item_deleted := True \<rparr>)"

fun ydelete :: "ytype list \<Rightarrow> nat \<Rightarrow> nat \<Rightarrow> ytype list" where
  "ydelete [] index len = []"
| "ydelete (t # ts) index len =
     (if len = 0 then t # ts
      else if yDeleted t then t # ydelete ts index len
      else if index > 0 then t # ydelete ts (index - 1) len
      else deleteType t # ydelete ts 0 (len - 1))"

fun yinsert :: "ytype list \<Rightarrow> nat \<Rightarrow> ytype list \<Rightarrow> ytype list" where
  "yinsert ts 0 new = new @ ts"
| "yinsert [] (Suc index) new = new"
| "yinsert (t # ts) (Suc index) new =
     (if yDeleted t then t # yinsert ts (Suc index) new else t # yinsert ts index new)"

definition findRef :: "ytype list \<Rightarrow> nat \<Rightarrow> ytype option" where
  "findRef ts r = find (\<lambda>t. yref t = r) ts"

definition replaceRef :: "ytype list \<Rightarrow> ytype \<Rightarrow> ytype list" where
  "replaceRef ts t' = map (\<lambda>t. if yref t = yref t' then t' else t) ts"

fun setItems :: "ytype \<Rightarrow> ytype list \<Rightarrow> ytype" where
  "setItems (XmlFragment r _) cs = XmlFragment r cs"
| "setItems (XmlElement r it name a _) cs = XmlElement r it name a cs"
| "setItems y cs = y"

fun setAttributes :: "ytype \<Rightarrow> attrs \<Rightarrow> ytype" where
  "setAttributes (XmlElement r it name _ cs) a = XmlElement r it name a cs"
| "setAttributes y a = y"

fun yChars :: "ytype \<Rightarrow> (char \<times> textattrs) list" where
  "yChars (XmlText _ _ cs) = cs"
| "yChars _ = []"

fun setChars :: "ytype \<Rightarrow> (char \<times> textattrs) list \<Rightarrow> ytype" where
  "setChars (XmlText r it _) cs = XmlText r it cs"
| "setChars y cs = y"

definition ytextDelete :: "ytype \<Rightarrow> nat \<Rightarrow> nat \<Rightarrow> ytype" where
  "ytextDelete ytext index len =
     setChars ytext (take index (yChars ytext) @ drop (index + len) (yChars ytext))"

text \<open>Text inserted without attributes takes those of the character before it.\<close>

definition ytextInsert :: "ytype \<Rightarrow> nat \<Rightarrow> string \<Rightarrow> ytype" where
  "ytextInsert ytext index str =
     (let cs = yChars ytext;
          inherited = (if 0 < index \<and> index \<le> length cs then snd (cs ! (index - 1)) else [])
      in setChars ytext (take index cs @ map (\<lambda>c. (c, inherited)) str @ drop index cs))"

text \<open>
  A retain of the delta formats the characters it passes: a \<open>null\<close> value (\<open>None\<close>)
  removes the attribute, another value sets it.
\<close>

definition formatAttrs :: "(string \<times> attrs option) list \<Rightarrow> textattrs \<Rightarrow> textattrs" where
  "formatAttrs fmt cur =
     foldl (\<lambda>acc (k, v). case v of None \<Rightarrow> objDelete acc k | Some a \<Rightarrow> objSet acc k a) cur fmt"

fun applyRetains ::
  "(nat \<times> (string \<times> attrs option) list) list \<Rightarrow> (char \<times> textattrs) list \<Rightarrow> (char \<times> textattrs) list" where
  "applyRetains [] cs = cs"
| "applyRetains ((n, fmt) # ops) cs =
     map (\<lambda>(c, a). (c, formatAttrs fmt a)) (take n cs) @ applyRetains ops (drop n cs)"

text \<open>
  \<open>applyDelta\<close> with a retain of the whole length and then inserts appends the inserted
  segments with their own attributes. Content that is integrated into a deleted type is
  deleted at once.
\<close>

definition ytextAppend :: "ytype \<Rightarrow> (string \<times> textattrs) list \<Rightarrow> ytype" where
  "ytextAppend ytext delta =
     (if yDeleted ytext then ytext else setChars ytext (yChars ytext @ spread delta))"

text \<open>\<open>simpleDiff\<close> of lib0 on strings: the common prefix and the common suffix stay.\<close>

definition commonPrefix :: "string \<Rightarrow> string \<Rightarrow> nat" where
  "commonPrefix a b = length (takeWhile (\<lambda>(x, y). x = y) (zip a b))"

definition simpleDiff :: "string \<Rightarrow> string \<Rightarrow> nat \<times> nat \<times> string" where
  "simpleDiff a b =
     (let left = commonPrefix a b;
          right = commonPrefix (rev (drop left a)) (rev (drop left b))
      in (left, length a - left - right, take (length b - left - right) (drop left b)))"

subsection \<open>Creating shared types from editable nodes\<close>

definition textDelta :: "env \<Rightarrow> pnode list \<Rightarrow> meta \<Rightarrow> (string \<times> textattrs) list \<times> meta" where
  "textDelta e nodes m =
     foldl (\<lambda>(delta, m) node.
              let (a, m') = marksToAttributes e (pMarks node) m
              in (delta @ [(pTextOf node, a)], m'))
       ([], m) nodes"

text \<open>
  A type that has been constructed and not yet inserted into a document is preliminary:
  it has no item and no document. An element keeps the attributes set on it and the
  children inserted into it aside (\<open>_prelimAttrs\<close>, \<open>_prelimContent\<close>), a text run the
  delta applied to it (\<open>_pending\<close>).
\<close>

datatype prelim =
    PrelimElement nat string attrs "prelim list"
  | PrelimText nat "(string \<times> textattrs) list"

fun prelimRef :: "prelim \<Rightarrow> nat" where
  "prelimRef (PrelimElement r _ _ _) = r"
| "prelimRef (PrelimText r _) = r"

definition createTypeFromTextNodes :: "env \<Rightarrow> pnode list \<Rightarrow> state \<Rightarrow> prelim \<times> state" where
  "createTypeFromTextNodes e nodes st =
     (let (r, st1) = newType st;
          (delta, m) = textDelta e nodes (fst st1)
      in (PrelimText r delta, mappingSet r (PTexts nodes) (m, snd st1)))"

fun pcsize :: "pcontent \<Rightarrow> nat" where
  "pcsize (PNodeC n) = size n"
| "pcsize (PTexts ns) = 0"

lemma normalizeContent_size: "size_list pcsize (normalizeContent c) \<le> size_list size c"
proof (induction c rule: normalizeContent.induct)
  case 1
  then show ?case by simp
next
  case (2 n c)
  show ?case
  proof (cases "isText n")
    case True
    have "size_list size (dropWhile isText c) \<le> size_list size c"
      by (induction c) auto
    then show ?thesis using 2(1)[OF True] True by simp
  next
    case False
    then show ?thesis using 2(2)[OF False] by simp
  qed
qed

lemma normalizePNodeContent_size: "size_list pcsize (normalizePNodeContent node) \<le> size node"
  using normalizeContent_size[of "pContent node"]
  by (cases node) (simp_all add: normalizePNodeContent_def)

function createTypeFromElementNode :: "env \<Rightarrow> pnode \<Rightarrow> state \<Rightarrow> prelim \<times> state"
  and createTypes :: "env \<Rightarrow> pcontent list \<Rightarrow> state \<Rightarrow> prelim list \<times> state" where
  "createTypeFromElementNode e node st =
     (let (r, st1) = newType st;
          nodeMarksAttr = nodeMarksToAttributes (pMarks node);
          a1 = foldl (\<lambda>a (key, val). if val \<noteq> JNull \<and> key \<noteq> ''ychange'' then objSet a key val else a)
                 [] (pAttrs node);
          a2 = foldl (\<lambda>a (key, val). objSet a key val) a1 nodeMarksAttr;
          (children, st2) = createTypes e (normalizePNodeContent node) st1
      in (PrelimElement r (pTypeName node) a2 children, mappingSet r (PNodeC node) st2))"
| "createTypes e [] st = ([], st)"
| "createTypes e (PTexts nodes # ns) st =
     (let (t, st1) = createTypeFromTextNodes e nodes st;
          (ts, st2) = createTypes e ns st1
      in (t # ts, st2))"
| "createTypes e (PNodeC node # ns) st =
     (let (t, st1) = createTypeFromElementNode e node st;
          (ts, st2) = createTypes e ns st1
      in (t # ts, st2))"
  by pat_completeness auto
termination
  by (relation "measure (\<lambda>x. case x of
          Inl (e, node, st) \<Rightarrow> 2 * size node + 1
        | Inr (e, ns, st) \<Rightarrow> 2 * size_list pcsize ns)")
     (auto simp: le_imp_less_Suc normalizePNodeContent_size)

definition createTypeFromTextOrElementNode :: "env \<Rightarrow> pcontent \<Rightarrow> state \<Rightarrow> prelim \<times> state" where
  "createTypeFromTextOrElementNode e node st =
     (case node of
        PTexts nodes \<Rightarrow> createTypeFromTextNodes e nodes st
      | PNodeC n \<Rightarrow> createTypeFromElementNode e n st)"

text \<open>
  Inserting preliminary types into a type that is part of a document integrates them, in
  their order: each gets an item of the local client with the next clock, an element
  then its preliminary children and attributes, a text run the content of its delta.
  \<open>insertTypes\<close> is \<open>insert\<close> on the list of items of such a type.
\<close>

fun integrate :: "env \<Rightarrow> prelim \<Rightarrow> ydoc \<Rightarrow> ytype \<times> ydoc"
  and integrateAll :: "env \<Rightarrow> prelim list \<Rightarrow> ydoc \<Rightarrow> ytype list \<times> ydoc" where
  "integrate e (PrelimElement r name a cs) d =
     (let it = \<lparr> item_client = clientID e, item_clock = nextClock d, item_deleted = False \<rparr>;
          (children, d1) = integrateAll e cs (d\<lparr> nextClock := nextClock d + 1 \<rparr>)
      in (XmlElement r it name a children, d1))"
| "integrate e (PrelimText r delta) d =
     (let it = \<lparr> item_client = clientID e, item_clock = nextClock d, item_deleted = False \<rparr>
      in (XmlText r it (spread delta), d\<lparr> nextClock := nextClock d + 1 \<rparr>))"
| "integrateAll e [] d = ([], d)"
| "integrateAll e (p # ps) d =
     (let (t, d1) = integrate e p d;
          (ts, d2) = integrateAll e ps d1
      in (t # ts, d2))"

definition insertTypes :: "env \<Rightarrow> ytype list \<Rightarrow> nat \<Rightarrow> prelim list \<Rightarrow> state \<Rightarrow> ytype list \<times> state" where
  "insertTypes e cur index new st =
     (let (ins, d) = integrateAll e new (snd st) in (yinsert cur index ins, (fst st, d)))"

subsection \<open>Updating a text run\<close>

definition ytextTrans :: "ytype \<Rightarrow> string \<times> (string \<times> attrs option) list" where
  "ytextTrans ytext =
     (map fst (yChars ytext),
      map (\<lambda>k. (k, None)) (remdups (concat (map (\<lambda>(c, a). map fst a) (yChars ytext)))))"

definition updateYText :: "env \<Rightarrow> ytype \<Rightarrow> pnode list \<Rightarrow> state \<Rightarrow> ytype \<times> state" where
  "updateYText e ytext ptexts st =
     (let st1 = mappingSet (yref ytext) (PTexts ptexts) st;
          (str, nAttrs) = ytextTrans ytext;
          (delta, m) = textDelta e ptexts (fst st1);
          content = map (\<lambda>(ins, a). (ins, objAssign (objAssign [] nAttrs) (map (\<lambda>(k, v). (k, Some v)) a)))
                      delta;
          (index, remove, insert) = simpleDiff str (concat (map fst content));
          y1 = ytextDelete ytext index remove;
          y2 = ytextInsert y1 index insert;
          y3 = setChars y2 (applyRetains (map (\<lambda>(ins, a). (length ins, a)) content) (yChars y2))
      in (y3, (m, snd st1)))"

subsection \<open>Updating a fragment\<close>

definition updateAttributes :: "attrs \<Rightarrow> pnode \<Rightarrow> attrs" where
  "updateAttributes yDomAttrs pNode =
     (let attrs = objAssign (objAssign [] (pAttrs pNode)) (nodeMarksToAttributes (pMarks pNode));
          a1 = foldl
                 (\<lambda>ya (key, val).
                    if val \<noteq> JNull
                    then (if map_of yDomAttrs key \<noteq> Some val \<and> key \<noteq> ''ychange''
                          then objSet ya key val else ya)
                    else objDelete ya key)
                 yDomAttrs attrs
      in foldl (\<lambda>ya (key, val). if map_of attrs key = None then objDelete ya key else ya)
           a1 yDomAttrs)"

text \<open>The two loops that find the matching children from the left and from the right.\<close>

function alignLeft ::
  "ytype list \<Rightarrow> pcontent list \<Rightarrow> nat \<Rightarrow> nat \<Rightarrow> state \<Rightarrow> nat \<times> state" where
  "alignLeft yChildren pChildren minCnt left st =
     (if left < minCnt then
        (let leftY = yChildren ! left; leftP = pChildren ! left in
           if \<not> mappedIdentity (mapping (fst st) (yref leftY)) leftP then
             (if equalYTypePNode leftY leftP
              then alignLeft yChildren pChildren minCnt (left + 1) (mappingSet (yref leftY) leftP st)
              else (left, st))
           else alignLeft yChildren pChildren minCnt (left + 1) st)
      else (left, st))"
  by pat_completeness auto
termination
  by (relation "measure (\<lambda>(ys, ps, minCnt, left, st). minCnt - left)") auto

function alignRight ::
  "ytype list \<Rightarrow> pcontent list \<Rightarrow> nat \<Rightarrow> nat \<Rightarrow> nat \<Rightarrow> state \<Rightarrow> nat \<times> state" where
  "alignRight yChildren pChildren minCnt left right st =
     (if right + left < minCnt then
        (let rightY = yChildren ! (length yChildren - right - 1);
             rightP = pChildren ! (length pChildren - right - 1) in
           if \<not> mappedIdentity (mapping (fst st) (yref rightY)) rightP then
             (if equalYTypePNode rightY rightP
              then alignRight yChildren pChildren minCnt left (right + 1)
                     (mappingSet (yref rightY) rightP st)
              else (right, st))
           else alignRight yChildren pChildren minCnt left (right + 1) st)
      else (right, st))"
  by pat_completeness auto
termination
  by (relation "measure (\<lambda>(ys, ps, minCnt, left, right, st). minCnt - (right + left))") auto

declare alignLeft.simps [simp del] alignRight.simps [simp del]

fun isArray :: "pcontent \<Rightarrow> bool" where
  "isArray (PTexts _) = True"
| "isArray (PNodeC _) = False"

fun theTexts :: "pcontent \<Rightarrow> pnode list" where
  "theTexts (PTexts ps) = ps"
| "theTexts (PNodeC _) = []"

text \<open>
  The decision of the dirty-middle loop between the two candidate sides: the final
  values of \<open>updateLeft\<close> and \<open>updateRight\<close>.
\<close>

definition chooseUpdate :: "ytype \<Rightarrow> pcontent \<Rightarrow> ytype \<Rightarrow> pcontent \<Rightarrow> meta \<Rightarrow> bool \<times> bool" where
  "chooseUpdate leftY leftP rightY rightP m =
     (let updateLeft = (isXmlElement leftY \<and> matchNodeName leftY leftP);
          updateRight = (isXmlElement rightY \<and> matchNodeName rightY rightP)
      in if updateLeft \<and> updateRight then
           (case (leftP, rightP) of
              (PNodeC lp, PNodeC rp) \<Rightarrow>
                (let equalityLeft = computeChildEqualityFactor leftY lp m;
                     equalityRight = computeChildEqualityFactor rightY rp m
                 in if foundMappedChild equalityLeft \<and> \<not> foundMappedChild equalityRight
                    then (True, False)
                    else if \<not> foundMappedChild equalityLeft \<and> foundMappedChild equalityRight
                    then (False, True)
                    else if equalityFactor equalityLeft < equalityFactor equalityRight
                    then (False, True)
                    else (True, False))
            | _ \<Rightarrow> (updateLeft, updateRight))
         else (updateLeft, updateRight))"

lemma normalizeContent_node: "PNodeC n \<in> set (normalizeContent c) \<Longrightarrow> n \<in> set c"
proof (induction c rule: normalizeContent.induct)
  case 1
  then show ?case by simp
next
  case (2 n' c)
  show ?case
  proof (cases "isText n'")
    case True
    then have "PNodeC n \<in> set (normalizeContent (dropWhile isText c))" using 2(3) by simp
    then have "n \<in> set (dropWhile isText c)" using 2(1)[OF True] by simp
    then show ?thesis by (auto dest: set_dropWhileD)
  next
    case False
    then show ?thesis using 2(2)[OF False] 2(3) by auto
  qed
qed

lemma normalizePNodeContent_child:
  "PNodeC n = normalizePNodeContent pNode ! i \<Longrightarrow> i < length (normalizePNodeContent pNode)
   \<Longrightarrow> size n < size pNode"
proof -
  assume "i < length (normalizePNodeContent pNode)" "PNodeC n = normalizePNodeContent pNode ! i"
  then have "PNodeC n \<in> set (normalizeContent (pContent pNode))"
    unfolding normalizePNodeContent_def by (metis nth_mem)
  then have "n \<in> set (pContent pNode)" by (rule normalizeContent_node)
  then show ?thesis
    by (cases pNode) (auto simp: less_Suc_eq_le dest: size_list_estimation')
qed

text \<open>
  The parts of \<open>updateYFragment\<close> that do not recurse. A text run under the left
  pointer is updated in place when it differs. A child that neither side can update is
  deleted, and a new type built from the left editable child is inserted in its place.
  After the loop, the remaining shared children are deleted (or, for a lone text run
  opposite no content, emptied), and the remaining editable children are inserted.
\<close>

definition updateTextChild :: "env \<Rightarrow> ytype \<Rightarrow> pnode list \<Rightarrow> state \<Rightarrow> ytype \<times> state" where
  "updateTextChild e leftY leftP st =
     (if \<not> equalYTextPText leftY leftP then updateYText e leftY leftP st else (leftY, st))"

definition replaceChild :: "env \<Rightarrow> pcontent \<Rightarrow> nat \<Rightarrow> ytype list \<Rightarrow> state \<Rightarrow> ytype list \<times> state" where
  "replaceChild e leftP left cur st =
     (let st1 = (if left < length (visible cur)
                 then mappingDelete (yref (visible cur ! left)) st
                 else st);
          cur1 = ydelete cur left 1;
          (new, st2) = createTypeFromTextOrElementNode e leftP st1
      in insertTypes e cur1 left [new] st2)"

definition finishChildren ::
  "env \<Rightarrow> ytype list \<Rightarrow> pcontent list \<Rightarrow> nat \<Rightarrow> nat \<Rightarrow> ytype list \<Rightarrow> state
     \<Rightarrow> ytype list \<times> state" where
  "finishChildren e yChildren pChildren left right cur st =
     (let yChildCnt = length yChildren;
          pChildCnt = length pChildren;
          yDelLen = yChildCnt - left - right;
          (cur1, st1) =
            (if yChildCnt = 1 \<and> pChildCnt = 0 \<and> isXmlText (yChildren ! 0)
             then (case findRef cur (yref (yChildren ! 0)) of
                     Some ytext \<Rightarrow>
                       (replaceRef cur (ytextDelete ytext 0 (length (yChars ytext))),
                        mappingDelete (yref (yChildren ! 0)) st)
                   | None \<Rightarrow> (cur, mappingDelete (yref (yChildren ! 0)) st))
             else if yDelLen > 0
             then (ydelete cur left yDelLen,
                   foldl (\<lambda>s t. mappingDelete (yref t) s) st
                     (take yDelLen (drop left (visible cur))))
             else (cur, st))
      in if left + right < pChildCnt
         then (let (ins, st2) =
                     createTypes e (take (pChildCnt - right - left) (drop left pChildren)) st1
               in insertTypes e cur1 left ins st2)
         else (cur1, st1))"

text \<open>
  The result of \<open>updateYFragment\<close>: the error it throws, if any, the fragment and the
  state as they are when it returns or throws. \<open>updateChildren\<close> is the loop over the
  dirty middle; \<open>yChildren\<close> holds the identities of the children as \<open>toArray\<close>
  returned them, and \<open>cur\<close> is the list of the fragment's items as the loop has
  changed it.
\<close>

function updateYFragment :: "env \<Rightarrow> ytype \<Rightarrow> pnode \<Rightarrow> state \<Rightarrow> error option \<times> ytype \<times> state"
  and updateChildren ::
    "env \<Rightarrow> nat list \<Rightarrow> pnode \<Rightarrow> nat \<Rightarrow> nat \<Rightarrow> ytype list \<Rightarrow> state
       \<Rightarrow> error option \<times> nat \<times> nat \<times> ytype list \<times> state" where
  "updateYFragment e yDomFragment pNode st =
     (if isXmlElement yDomFragment \<and> nodeName yDomFragment \<noteq> Some (pTypeName pNode)
      then (Some NodeNameMismatch, yDomFragment, st)
      else
        (let st0 = mappingSet (yref yDomFragment) (PNodeC pNode) st;
             y0 = (if isXmlElement yDomFragment
                   then setAttributes yDomFragment
                          (updateAttributes (getAttributes yDomFragment) pNode)
                   else yDomFragment)
         in if isXmlText y0 \<or> isXmlHook y0
            then (Some TypeError, y0, st0)
            else
              (let pChildren = normalizePNodeContent pNode;
                   yChildren = toArray y0;
                   minCnt = min (length pChildren) (length yChildren);
                   (left0, st1) = alignLeft yChildren pChildren minCnt 0 st0;
                   (right0, st2) = alignRight yChildren pChildren minCnt left0 0 st1
               in case updateChildren e (map yref yChildren) pNode left0 right0 (yItems y0) st2 of
                    (Some err, left, right, cur, st3) \<Rightarrow> (Some err, setItems y0 cur, st3)
                  | (None, left, right, cur, st3) \<Rightarrow>
                      (let (cur1, st4) = finishChildren e yChildren pChildren left right cur st3
                       in (None, setItems y0 cur1, st4)))))"
| "updateChildren e yChildren pNode left right cur st =
     (let pChildren = normalizePNodeContent pNode;
          pChildCnt = length pChildren;
          yChildCnt = length yChildren
      in if yChildCnt - left - right > 0 \<and> pChildCnt - left - right > 0 then
           (case (findRef cur (yChildren ! left), findRef cur (yChildren ! (yChildCnt - right - 1))) of
              (Some leftY, Some rightY) \<Rightarrow>
                (let leftP = pChildren ! left;
                     rightP = pChildren ! (pChildCnt - right - 1)
                 in if isXmlText leftY \<and> isArray leftP then
                      (let (leftY', st') = updateTextChild e leftY (theTexts leftP) st
                       in updateChildren e yChildren pNode (left + 1) right
                            (replaceRef cur leftY') st')
                    else
                      (let (updateLeft, updateRight) =
                             chooseUpdate leftY leftP rightY rightP (fst st)
                       in if updateLeft then
                            (case leftP of
                               PNodeC lp \<Rightarrow>
                                 (case updateYFragment e leftY lp st of
                                    (Some err, y', st') \<Rightarrow>
                                      (Some err, left, right, replaceRef cur y', st')
                                  | (None, y', st') \<Rightarrow>
                                      updateChildren e yChildren pNode (left + 1) right
                                        (replaceRef cur y') st')
                             | PTexts _ \<Rightarrow> (Some TypeError, left, right, cur, st))
                          else if updateRight then
                            (case rightP of
                               PNodeC rp \<Rightarrow>
                                 (case updateYFragment e rightY rp st of
                                    (Some err, y', st') \<Rightarrow>
                                      (Some err, left, right, replaceRef cur y', st')
                                  | (None, y', st') \<Rightarrow>
                                      updateChildren e yChildren pNode left (right + 1)
                                        (replaceRef cur y') st')
                             | PTexts _ \<Rightarrow> (Some TypeError, left, right, cur, st))
                          else
                            (let (cur', st') = replaceChild e leftP left cur st
                             in updateChildren e yChildren pNode (left + 1) right cur' st')))
            | _ \<Rightarrow> (Some TypeError, left, right, cur, st))
         else (None, left, right, cur, st))"
  by pat_completeness auto
termination
  apply (relation "inv_image (less_than <*lex*> less_than) (\<lambda>x. case x of
          Inl (e, y, pNode, st) \<Rightarrow> (size pNode, length (normalizePNodeContent pNode) + 1)
        | Inr (e, yc, pNode, left, right, cur, st) \<Rightarrow>
            (size pNode, length (normalizePNodeContent pNode) - left - right))")
  apply (auto dest!: normalizePNodeContent_child)
  done

declare updateYFragment.simps [simp del] updateChildren.simps [simp del]

text \<open>Inputs for evaluating the forward synchronizer.\<close>

definition exEnv :: env where
  "exEnv = \<lparr> clientID = 1, excludesSelf = (\<lambda>n. n \<noteq> ''comment''),
             hashOfJSON = (\<lambda>_. ''ABCDEFGH'') \<rparr>"

definition exState :: state where
  "exState = (emptyMeta, \<lparr> nextRef = 100, nextClock = 50 \<rparr>)"

definition exParagraph :: ytype where
  "exParagraph = XmlElement 5 (liveItem 2 7) ''paragraph'' []
                   [XmlText 6 (liveItem 2 8) [(CHR ''a'', []), (CHR ''b'', [])]]"

definition exTwoParagraphs :: "ytype list" where
  "exTwoParagraphs = [XmlElement 1 (liveItem 2 1) ''paragraph'' [] [],
                      XmlElement 2 (liveItem 2 2) ''paragraph'' [] []]"

definition exDocAligned :: pnode where
  "exDocAligned = PElement ''doc'' []
     [PElement ''paragraph'' [(''align'', JStr ''left'')] [] [],
      PElement ''paragraph'' [(''align'', JStr ''right'')] [] []] []"

section \<open>The reverse synchronizer\<close>

text \<open>
  The schema of the editing surface is external. Its constructors check what they
  build and throw when the check fails, which is the value \<open>None\<close>: \<open>schema.node\<close>
  (type name, attributes, children, marks), \<open>schema.text\<close> (text, marks) and
  \<open>schema.mark\<close> (mark name, attributes; \<open>None\<close> for \<open>undefined\<close> attributes).
\<close>

record schema =
  schema_node :: "string \<Rightarrow> attrs \<Rightarrow> pnode list \<Rightarrow> mark list \<Rightarrow> pnode option"
  schema_text :: "string \<Rightarrow> mark list \<Rightarrow> pnode option"
  schema_mark :: "string \<Rightarrow> jsval option \<Rightarrow> mark option"

fun attributesToMarks :: "schema \<Rightarrow> textattrs \<Rightarrow> mark list option" where
  "attributesToMarks sch [] = Some []"
| "attributesToMarks sch ((markName, a) # attrs) =
     (case schema_mark sch (yattr2markname markName) (Some (JObj a)) of
        None \<Rightarrow> None
      | Some m \<Rightarrow>
          (case attributesToMarks sch attrs of None \<Rightarrow> None | Some ms \<Rightarrow> Some (m # ms)))"

text \<open>The loop in the \<open>try\<close> block of \<open>createTextNodesFromYText\<close>.\<close>

fun textNodes :: "schema \<Rightarrow> (string \<times> textattrs) list \<Rightarrow> pnode list option" where
  "textNodes sch [] = Some []"
| "textNodes sch ((ins, a) # deltas) =
     (case attributesToMarks sch a of
        None \<Rightarrow> None
      | Some ms \<Rightarrow>
          (case schema_text sch ins ms of
             None \<Rightarrow> None
           | Some n \<Rightarrow>
               (case textNodes sch deltas of None \<Rightarrow> None | Some ns \<Rightarrow> Some (n # ns))))"

definition createTextNodesFromYText :: "schema \<Rightarrow> ytype \<Rightarrow> pnode list option \<times> ytype" where
  "createTextNodesFromYText sch text =
     (case textNodes sch (toDelta text) of
        Some nodes \<Rightarrow> (Some nodes, text)
      | None \<Rightarrow> (None, deleteType text))"

text \<open>
  The \<open>try\<close> block of \<open>createNodeFromYElement\<close>: the attributes of the element are
  split into node attributes and node marks, and the node is built.
\<close>

fun splitAttributes :: "schema \<Rightarrow> attrs \<Rightarrow> attrs \<Rightarrow> mark list \<Rightarrow> (attrs \<times> mark list) option" where
  "splitAttributes sch [] nodeAttrs nodeMarks = Some (nodeAttrs, nodeMarks)"
| "splitAttributes sch ((key, val) # attrs) nodeAttrs nodeMarks =
     (if startsWith key MarkPrefix then
        (case val of
           JObj markValue \<Rightarrow>
             (case schema_mark sch (drop (length MarkPrefix) key) (map_of markValue ''attrs'') of
                None \<Rightarrow> None
              | Some m \<Rightarrow> splitAttributes sch attrs nodeAttrs (nodeMarks @ [m]))
         | _ \<Rightarrow> splitAttributes sch attrs nodeAttrs nodeMarks)
      else splitAttributes sch attrs (objSet nodeAttrs key val) nodeMarks)"

definition buildNode :: "schema \<Rightarrow> ytype \<Rightarrow> pnode list \<Rightarrow> pnode option" where
  "buildNode sch el children =
     (case splitAttributes sch (getAttributes el) [] [] of
        None \<Rightarrow> None
      | Some (nodeAttrs, nodeMarks) \<Rightarrow>
          (case nodeName el of
             None \<Rightarrow> None
           | Some name \<Rightarrow> schema_node sch name nodeAttrs children nodeMarks))"

text \<open>
  The companion rule for adjacent text runs: \<open>rest\<close> holds the items to the right of
  the run, so its head is the run's right neighbour.
\<close>

definition mergeFollower :: "env \<Rightarrow> ytype \<Rightarrow> (bool \<times> ytype) list \<Rightarrow> ytype \<times> (bool \<times> ytype) list" where
  "mergeFollower e type rest =
     (case rest of
        [] \<Rightarrow> (type, rest)
      | (v, nextytext) # rest' \<Rightarrow>
          if isXmlText nextytext \<and> \<not> yDeleted nextytext \<and> yClient nextytext = Some (clientID e)
          then (ytextAppend type (toDelta nextytext), (v, deleteType nextytext) # rest')
          else (type, rest))"

lemma size_deleteType: "size (deleteType t) = size t"
proof (induction t)
  case (XmlElement r it name a cs)
  then have "size_list size (map deleteType cs) = size_list size cs"
    by (induction cs) auto
  then show ?case by simp
qed simp_all

lemma size_mergeFollower:
  "(type1, rest1) = mergeFollower e type rest \<Longrightarrow>
   size_list (\<lambda>x. size (snd x)) rest1 = size_list (\<lambda>x. size (snd x)) rest"
  by (auto simp: mergeFollower_def size_deleteType split: list.splits if_splits)

lemma size_flagged_items:
  "isXmlElement el \<Longrightarrow>
   size_list ((\<lambda>x. size (snd x)) \<circ> (\<lambda>c. (\<not> yDeleted c, c))) (yItems el) < size el"
proof (cases el)
  case (XmlElement r it name a cs)
  have "size_list ((\<lambda>x. size (snd x)) \<circ> (\<lambda>c. (\<not> yDeleted c, c))) cs = size_list size cs"
    by (induction cs) auto
  then show ?thesis using XmlElement by simp
qed simp_all

text \<open>
  \<open>createNodeFromYElement\<close> for the live tree (without snapshot arguments). The result
  is the error that escapes, if any, the node or \<open>None\<close> for \<open>null\<close>, the element and
  the state afterwards. \<open>createChildren\<close> runs over the items of the element; an item
  is visited when it was visible at the time \<open>toArray\<close> was called, which its flag
  records. It returns the children built and the items as they are afterwards. In the
  mapping table an element has a node; a list under the key of an element is reported
  as a type error.
\<close>

function createNodeIfNotExists ::
    "env \<Rightarrow> schema \<Rightarrow> ytype \<Rightarrow> state \<Rightarrow> error option \<times> pnode option \<times> ytype \<times> state"
  and createNodeFromYElement ::
    "env \<Rightarrow> schema \<Rightarrow> ytype \<Rightarrow> state \<Rightarrow> error option \<times> pnode option \<times> ytype \<times> state"
  and createChildren ::
    "env \<Rightarrow> schema \<Rightarrow> (bool \<times> ytype) list \<Rightarrow> state
       \<Rightarrow> error option \<times> pnode list \<times> ytype list \<times> state" where
  "createNodeIfNotExists e sch el st =
     (case mapping (fst st) (yref el) of
        None \<Rightarrow>
          if isXmlElement el then createNodeFromYElement e sch el st
          else (Some MethodUnimplemented, None, el, st)
      | Some (PNodeC node) \<Rightarrow> (None, Some node, el, st)
      | Some (PTexts _) \<Rightarrow> (Some TypeError, None, el, st))"
| "createNodeFromYElement e sch el st =
     (if isXmlElement el then
        (case createChildren e sch (map (\<lambda>c. (\<not> yDeleted c, c)) (yItems el)) st of
           (Some err, children, items, st1) \<Rightarrow> (Some err, None, setItems el items, st1)
         | (None, children, items, st1) \<Rightarrow>
             (case buildNode sch (setItems el items) children of
                Some node \<Rightarrow>
                  (None, Some node, setItems el items, mappingSet (yref el) (PNodeC node) st1)
              | None \<Rightarrow>
                  (None, None, deleteType (setItems el items), mappingDelete (yref el) st1)))
      else (Some TypeError, None, el, st))"
| "createChildren e sch [] st = (None, [], [], st)"
| "createChildren e sch ((visit, type) # rest) st =
     (if \<not> visit then
        (case createChildren e sch rest st of
           (err, children, items, st') \<Rightarrow> (err, children, type # items, st'))
      else if isXmlElement type then
        (case createNodeIfNotExists e sch type st of
           (Some err, n, type', st1) \<Rightarrow> (Some err, [], type' # map snd rest, st1)
         | (None, n, type', st1) \<Rightarrow>
             (case createChildren e sch rest st1 of
                (err, children, items, st2) \<Rightarrow>
                  (err, (case n of Some node \<Rightarrow> [node] | None \<Rightarrow> []) @ children,
                   type' # items, st2)))
      else if isXmlText type then
        (let (type1, rest1) = mergeFollower e type rest;
             (ns, type2) = createTextNodesFromYText sch type1
         in case createChildren e sch rest1 st of
              (err, children, items, st1) \<Rightarrow>
                (err, (case ns of Some nodes \<Rightarrow> nodes | None \<Rightarrow> []) @ children,
                 type2 # items, st1))
      else (Some TypeError, [], type # map snd rest, st))"
  by pat_completeness auto
termination
  apply (relation "measure (\<lambda>x. case x of
          Inl (e, sch, el, st) \<Rightarrow> 3 * size el + 2
        | Inr (Inl (e, sch, el, st)) \<Rightarrow> 3 * size el + 1
        | Inr (Inr (e, sch, ts, st)) \<Rightarrow> 3 * size_list (\<lambda>x. size (snd x)) ts)")
  apply (auto simp: size_mergeFollower dest!: size_flagged_items)
  done

declare createNodeIfNotExists.simps [simp del] createNodeFromYElement.simps [simp del]
  createChildren.simps [simp del]

text \<open>
  A small schema for evaluating the reverse synchronizer: a document of at least one
  block, paragraphs and headings of text, four mark types.
\<close>

definition exSchema :: schema where
  "exSchema =
     \<lparr> schema_node = (\<lambda>name a children ms.
          if name = ''doc'' \<and> children \<noteq> [] \<and> list_all (\<lambda>c. \<not> isText c) children
             \<or> name \<in> {''paragraph'', ''heading''} \<and> list_all isText children
          then Some (PElement name a children ms) else None),
       schema_text = (\<lambda>s ms. if s = [] then None else Some (PText s ms)),
       schema_mark = (\<lambda>name a.
          if name \<in> {''em'', ''strong'', ''link'', ''comment''}
          then Some \<lparr> mark_name = name,
                      mark_attrs = (case a of Some (JObj kvs) \<Rightarrow> kvs | _ \<Rightarrow> []) \<rparr>
          else None) \<rparr>"

text \<open>Elements for evaluating the reverse synchronizer.\<close>

definition exEmptyDoc :: ytype where
  "exEmptyDoc = XmlElement 1 (liveItem 1 1) ''doc'' [] []"

definition exRuns :: "nat \<Rightarrow> ytype" where
  "exRuns c = XmlElement 1 (liveItem c 1) ''paragraph'' []
                [XmlText 2 (liveItem c 2) [(CHR ''a'', [])],
                 XmlText 3 (liveItem c 3) [(CHR ''b'', [])],
                 XmlText 4 (liveItem c 4) [(CHR ''c'', [])]]"

section \<open>Editable trees that survive the round trip\<close>

text \<open>
  Whether a mark type counts as overlapping is read from the cache of the metadata, and
  computed from the schema when the cache has no entry. Under such a decision a mark is
  stored under its key in the attributes of a text run.
\<close>

definition decide :: "env \<Rightarrow> meta \<Rightarrow> string \<Rightarrow> bool" where
  "decide e m name = (case isOMark m name of Some b \<Rightarrow> b | None \<Rightarrow> \<not> excludesSelf e name)"

definition markKey :: "env \<Rightarrow> (string \<Rightarrow> bool) \<Rightarrow> mark \<Rightarrow> string" where
  "markKey e d mk =
     (if d (mark_name mk) then mark_name mk @ ''--'' @ hashOfJSON e (markToJSON mk)
      else mark_name mk)"

definition textAttrsOf :: "env \<Rightarrow> (string \<Rightarrow> bool) \<Rightarrow> mark list \<Rightarrow> textattrs" where
  "textAttrsOf e d marks = map (\<lambda>mk. (markKey e d mk, mark_attrs mk)) marks"

text \<open>
  The conditions of the round trip. A mark name is plain when it is not \<open>ychange\<close>, has
  no line terminator and does not itself end like a hashed name. Attributes are plain
  when their keys are distinct and none begins with the mark prefix. The marks of a text
  node have distinct plain names and plain attributes, and the schema builds each of
  them from its name and attributes; likewise the marks of a node, where the schema
  gets the attributes as the mark's JSON form holds them. A text node has text, and the
  schema builds it. A node has plain attributes and no change attribution; the schema
  builds it from its attributes that are not \<open>null\<close>, its content and its marks; its
  content satisfies the conditions, and adjacent text nodes of its content differ in
  their sets of marks.
\<close>

definition plainName :: "string \<Rightarrow> bool" where
  "plainName n =
     (n \<noteq> ''ychange'' \<and> \<not> endsWithHash n \<and> list_all (\<lambda>c. \<not> isLineTerminator c) n)"

definition plainAttrs :: "attrs \<Rightarrow> bool" where
  "plainAttrs a = (distinct (map fst a) \<and> list_all (\<lambda>(k, v). \<not> startsWith k MarkPrefix) a)"

definition textMarksOk :: "schema \<Rightarrow> mark list \<Rightarrow> bool" where
  "textMarksOk sch ms =
     (distinct (map mark_name ms) \<and>
      list_all (\<lambda>m. plainName (mark_name m) \<and> plainAttrs (mark_attrs m) \<and>
                    schema_mark sch (mark_name m) (Some (JObj (mark_attrs m))) = Some m) ms)"

definition jsonAttrs :: "mark \<Rightarrow> jsval option" where
  "jsonAttrs m = (if mark_attrs m = [] then None else Some (JObj (mark_attrs m)))"

definition nodeMarksOk :: "schema \<Rightarrow> mark list \<Rightarrow> bool" where
  "nodeMarksOk sch ms =
     (distinct (map mark_name ms) \<and>
      list_all (\<lambda>m. mark_name m \<noteq> ''ychange'' \<and>
                    schema_mark sch (mark_name m) (jsonAttrs m) = Some m) ms)"

fun adjacentTextsDiffer :: "pnode list \<Rightarrow> bool" where
  "adjacentTextsDiffer (x # y # c) =
     ((isText x \<and> isText y \<longrightarrow> set (pMarks x) \<noteq> set (pMarks y)) \<and> adjacentTextsDiffer (y # c))"
| "adjacentTextsDiffer c = True"

fun roundTrips :: "schema \<Rightarrow> pnode \<Rightarrow> bool" where
  "roundTrips sch (PText s ms) =
     (s \<noteq> [] \<and> textMarksOk sch ms \<and> schema_text sch s ms = Some (PText s ms))"
| "roundTrips sch (PElement name a c ms) =
     (plainAttrs a \<and> map_of a ''ychange'' \<in> {None, Some JNull} \<and> nodeMarksOk sch ms \<and>
      schema_node sch name (filter (\<lambda>(k, v). v \<noteq> JNull) a) c ms = Some (PElement name a c ms) \<and>
      list_all (roundTrips sch) c \<and> adjacentTextsDiffer c)"

text \<open>The hash of the environment has the form that the decoding strips.\<close>

definition hashForm :: "env \<Rightarrow> bool" where
  "hashForm e = (\<forall>v. length (hashOfJSON e v) = 8 \<and> list_all isHashChar (hashOfJSON e v))"

subsection \<open>The forward synchronizer on such trees\<close>

text \<open>
  One step of the loop of \<open>marksToAttributes\<close>, and the delta that the text nodes of a
  run are stored as when every mark is stored under its key. A run of text nodes is one
  slot of the normalized content: text nodes that satisfy the conditions.
\<close>

definition markStep :: "env \<Rightarrow> textattrs \<times> meta \<Rightarrow> mark \<Rightarrow> textattrs \<times> meta" where
  "markStep e = (\<lambda>(pattrs, m) mk.
          if mark_name mk \<noteq> ''ychange'' then
            (let (isOverlapping, m') =
                   (case isOMark m (mark_name mk) of
                      Some b \<Rightarrow> (b, m)
                    | None \<Rightarrow>
                        (\<not> excludesSelf e (mark_name mk),
                         m\<lparr> isOMark := (isOMark m)(mark_name mk \<mapsto> \<not> excludesSelf e (mark_name mk)) \<rparr>))
             in (objSet pattrs
                   (if isOverlapping
                    then mark_name mk @ ''--'' @ hashOfJSON e (markToJSON mk)
                    else mark_name mk)
                   (mark_attrs mk),
                 m'))
          else (pattrs, m))"

definition deltaOf :: "env \<Rightarrow> (string \<Rightarrow> bool) \<Rightarrow> pnode list \<Rightarrow> (string \<times> textattrs) list" where
  "deltaOf e d ns = map (\<lambda>n. (pTextOf n, textAttrsOf e d (pMarks n))) ns"

definition textRun :: "schema \<Rightarrow> pnode list \<Rightarrow> bool" where
  "textRun sch ns = (list_all (\<lambda>n. isText n \<and> roundTrips sch n) ns \<and> adjacentTextsDiffer ns)"

text \<open>
  The attributes of a node that are not \<open>null\<close>, and the entries that its marks are stored
  as among the attributes of the element.
\<close>

definition notNull :: "attrs \<Rightarrow> attrs" where
  "notNull a = filter (\<lambda>(k, v). v \<noteq> JNull) a"

definition markEntries :: "mark list \<Rightarrow> attrs" where
  "markEntries ms = map (\<lambda>m. (MarkPrefix @ mark_name m, markToJSON m)) ms"

text \<open>
  The slots of normalized content: a node that is no text node, or a run of text nodes;
  no two runs are adjacent, and the slots flattened give the content back.
\<close>

fun slotOk :: "schema \<Rightarrow> pcontent \<Rightarrow> bool" where
  "slotOk sch (PNodeC n) = (\<not> isText n \<and> roundTrips sch n)"
| "slotOk sch (PTexts ns) = textRun sch ns"

fun noAdjacentTexts :: "pcontent list \<Rightarrow> bool" where
  "noAdjacentTexts (x # y # r) = (\<not> (isArray x \<and> isArray y) \<and> noAdjacentTexts (y # r))"
| "noAdjacentTexts r = True"

fun flatten :: "pcontent list \<Rightarrow> pnode list" where
  "flatten [] = []"
| "flatten (PNodeC n # r) = n # flatten r"
| "flatten (PTexts ns # r) = ns @ flatten r"

text \<open>
  The identities of the shared types grow with their creation. A mapping table is
  unmapped from an identity on when it has no entry for it or a later one. An element
  builds back to a node when, under every table unmapped from its identity on,
  \<open>createNodeFromYElement\<close> returns the node without an error and leaves the element as it
  is; likewise a list of children. A shared type matches a slot when it is live, of the
  kind of the slot, and equal to it by \<open>equalYTypePNode\<close>.
\<close>

definition unmapped :: "nat \<Rightarrow> state \<Rightarrow> bool" where
  "unmapped k st = (\<forall>r\<ge>k. mapping (fst st) r = None)"

definition buildsBack :: "env \<Rightarrow> schema \<Rightarrow> pnode \<Rightarrow> ytype \<Rightarrow> nat \<Rightarrow> nat \<Rightarrow> bool" where
  "buildsBack e sch T Y lo hi =
     (\<forall>cst. unmapped lo cst \<longrightarrow>
        (\<exists>cst'. createNodeFromYElement e sch Y cst = (None, Some T, Y, cst') \<and> unmapped hi cst'))"

definition childrenBack ::
    "env \<Rightarrow> schema \<Rightarrow> pcontent list \<Rightarrow> ytype list \<Rightarrow> nat \<Rightarrow> nat \<Rightarrow> bool" where
  "childrenBack e sch slots ts lo hi =
     (\<forall>cst. unmapped lo cst \<longrightarrow>
        (\<exists>cst'. createChildren e sch (map (\<lambda>t. (True, t)) ts) cst = (None, flatten slots, ts, cst') \<and>
               unmapped hi cst'))"

definition matches :: "ytype \<Rightarrow> pcontent \<Rightarrow> bool" where
  "matches t s =
     (\<not> yDeleted t \<and> isXmlText t = isArray s \<and> isXmlElement t = (\<not> isArray s) \<and>
      equalYTypePNode t s)"

text \<open>
  What holds of the preliminary element that \<open>createTypeFromElementNode\<close> creates for a
  node once it is integrated into a document, whatever the clock of the document, and
  of the preliminary types that \<open>createTypes\<close> creates for slots.
\<close>

definition nodeCreated :: "env \<Rightarrow> schema \<Rightarrow> pnode \<Rightarrow> state \<Rightarrow> bool" where
  "nodeCreated e sch T st =
     (case createTypeFromElementNode e T st of
        (P, st') \<Rightarrow>
          nextRef (snd st) < nextRef (snd st') \<and>
          (\<forall>d. case integrate e P d of
                 (Y, d') \<Rightarrow>
                   isXmlElement Y \<and> yref Y = nextRef (snd st) \<and> \<not> yDeleted Y \<and>
                   equalYTypePNode Y (PNodeC T) \<and>
                   buildsBack e sch T Y (nextRef (snd st)) (nextRef (snd st'))))"

definition typesCreated :: "env \<Rightarrow> schema \<Rightarrow> pcontent list \<Rightarrow> state \<Rightarrow> bool" where
  "typesCreated e sch slots st =
     (case createTypes e slots st of
        (ps, st') \<Rightarrow>
          nextRef (snd st) \<le> nextRef (snd st') \<and>
          (\<forall>d. case integrateAll e ps d of
                 (ts, d') \<Rightarrow>
                   list_all2 matches ts slots \<and>
                   childrenBack e sch slots ts (nextRef (snd st)) (nextRef (snd st'))))"

text \<open>
  The shared type of the round trip: the type that \<open>createTypeFromElementNode\<close> creates
  for a node, inserted into a document.
\<close>

definition insertedType :: "env \<Rightarrow> pnode \<Rightarrow> state \<Rightarrow> ydoc \<Rightarrow> ytype" where
  "insertedType e T st d = fst (integrate e (fst (createTypeFromElementNode e T st)) d)"

subsection \<open>A preliminary type read before it is inserted\<close>

text \<open>
  Read through its methods, a preliminary element has its node name and nothing else:
  \<open>toArray\<close> and \<open>getAttributes\<close> yield nothing, and \<open>_length\<close> is zero. So
  \<open>createNodeFromYElement\<close> asks the schema for a node of that name without attributes,
  children and marks; when the schema refuses, the \<open>catch\<close> block reads \<open>el.doc\<close>, which
  is \<open>null\<close>, and a type error escapes. \<open>equalYTypePNode\<close> compares the node with an
  element that has that name and nothing else. A preliminary text run has an empty
  delta, and is no element.
\<close>

definition createNodeFromYElement_prelim ::
    "schema \<Rightarrow> prelim \<Rightarrow> state \<Rightarrow> error option \<times> pnode option \<times> state" where
  "createNodeFromYElement_prelim sch el st =
     (case el of
        PrelimElement r name a cs \<Rightarrow>
          (case schema_node sch name [] [] [] of
             Some node \<Rightarrow> (None, Some node, mappingSet r (PNodeC node) st)
           | None \<Rightarrow> (Some TypeError, None, st))
      | PrelimText r delta \<Rightarrow> (Some TypeError, None, st))"

definition equalYTypePNode_prelim :: "prelim \<Rightarrow> pcontent \<Rightarrow> bool" where
  "equalYTypePNode_prelim ytype pnode =
     (case ytype of
        PrelimElement r name a cs \<Rightarrow>
          (case pnode of
             PNodeC p \<Rightarrow>
               name = pTypeName p \<and> 0 = length (normalizePNodeContent p) \<and>
               equalAttrs (pAttrs p) (Some []) \<and> equalMarks (pMarks p) []
           | PTexts _ \<Rightarrow> False)
      | PrelimText r delta \<Rightarrow>
          (case pnode of PTexts ps \<Rightarrow> 0 = length ps | PNodeC _ \<Rightarrow> False))"

subsection \<open>Trees for evaluating the round trip\<close>

text \<open>
  A schema of a document of at least one block, paragraphs and headings of text. Every
  block has the attribute \<open>ychange\<close> with the default \<open>null\<close>, a heading also a level with
  the default one; a node gets the attributes of its type, given or default. The marks
  \<open>em\<close> and \<open>strong\<close> have no attributes, a comment has an \<open>id\<close>, which must be given.
\<close>

definition attrOr :: "attrs \<Rightarrow> string \<Rightarrow> jsval \<Rightarrow> jsval" where
  "attrOr a k dflt = (case map_of a k of Some v \<Rightarrow> v | None \<Rightarrow> dflt)"

definition exDocSchema :: schema where
  "exDocSchema =
     \<lparr> schema_node = (\<lambda>name a children ms.
          if name = ''doc'' \<and> children \<noteq> [] \<and> list_all (\<lambda>c. \<not> isText c) children
          then Some (PElement name [] children ms)
          else if name = ''paragraph'' \<and> list_all isText children
          then Some (PElement name [(''ychange'', attrOr a ''ychange'' JNull)] children ms)
          else if name = ''heading'' \<and> list_all isText children
          then Some (PElement name [(''level'', attrOr a ''level'' (JNum 1)),
                                    (''ychange'', attrOr a ''ychange'' JNull)] children ms)
          else None),
       schema_text = (\<lambda>s ms. if s = [] then None else Some (PText s ms)),
       schema_mark = (\<lambda>name a.
          if name \<in> {''em'', ''strong''} then Some \<lparr> mark_name = name, mark_attrs = [] \<rparr>
          else if name = ''comment''
          then (case a of
                  Some (JObj kvs) \<Rightarrow>
                    (case map_of kvs ''id'' of
                       Some v \<Rightarrow> Some \<lparr> mark_name = name, mark_attrs = [(''id'', v)] \<rparr>
                     | None \<Rightarrow> None)
                | _ \<Rightarrow> None)
          else None) \<rparr>"

text \<open>
  An article with a heading and a paragraph that carries a comment; a paragraph of plain
  text; a paragraph that carries a change attribution; a paragraph whose text carries two
  comments. The second environment hashes the two comments differently.
\<close>

definition exEm :: mark where
  "exEm = \<lparr> mark_name = ''em'', mark_attrs = [] \<rparr>"

definition exComment :: "int \<Rightarrow> mark" where
  "exComment i = \<lparr> mark_name = ''comment'', mark_attrs = [(''id'', JNum i)] \<rparr>"

definition exArticle :: pnode where
  "exArticle = PElement ''doc'' []
     [PElement ''heading'' [(''level'', JNum 2), (''ychange'', JNull)] [PText ''Hi'' []] [],
      PElement ''paragraph'' [(''ychange'', JNull)]
        [PText ''ab'' [exEm], PText ''c'' [exEm, exComment 1]] [exComment 7]] []"

definition exPlain :: pnode where
  "exPlain = PElement ''paragraph'' [(''ychange'', JNull)] [PText ''ab'' []] []"

definition exChanged :: pnode where
  "exChanged = PElement ''paragraph'' [(''ychange'', JObj [(''type'', JStr ''added'')])] [] []"

definition exOverlap :: pnode where
  "exOverlap = PElement ''paragraph'' [(''ychange'', JNull)]
                 [PText ''ab'' [exComment 1, exComment 2]] []"

definition exHashEnv :: env where
  "exHashEnv = \<lparr> clientID = 1, excludesSelf = (\<lambda>n. n \<noteq> ''comment''),
                 hashOfJSON = (\<lambda>v. if v = markToJSON (exComment 1) then ''ABCDEFGH''
                                    else ''abcdefgh'') \<rparr>"

section \<open>Properties of the mark-name decoding\<close>

lemma isHashSuffix_len: "isHashSuffix t \<Longrightarrow> length t = 10"
  by (simp add: isHashSuffix_def)

lemma endsWithHash_split: "endsWithHash s \<Longrightarrow> \<exists>pre suf. s = pre @ suf \<and> isHashSuffix suf"
  unfolding endsWithHash_def by (metis append_take_drop_id)

lemma endsWithHash_append: "isHashSuffix suf \<Longrightarrow> endsWithHash (pre @ suf)"
  by (frule isHashSuffix_len) (simp add: endsWithHash_def)

lemma matchHere_append:
  "isHashSuffix suf \<Longrightarrow>
   matchHere (pre @ suf) = (if list_all (\<lambda>c. \<not> isLineTerminator c) pre then Some pre else None)"
  by (frule isHashSuffix_len) (simp add: matchHere_def)

lemma matchHere_None: "\<not> endsWithHash s \<Longrightarrow> matchHere s = None"
  by (simp add: matchHere_def endsWithHash_def)

lemma endsWithHash_tail: "endsWithHash cs \<Longrightarrow> endsWithHash (c # cs)"
  using endsWithHash_split endsWithHash_append by (metis append_Cons)

lemma regexExec_no: "\<not> endsWithHash s \<Longrightarrow> regexExec s = None"
proof (induction s)
  case Nil
  then show ?case by (simp add: matchHere_None)
next
  case (Cons c cs)
  then have "\<not> endsWithHash cs" using endsWithHash_tail by blast
  then show ?case using Cons by (simp add: matchHere_None)
qed

lemma afterLast_clean:
  "list_all (\<lambda>c. \<not> isLineTerminator c) s \<Longrightarrow> afterLastLineTerminator s = s"
  by (simp add: afterLastLineTerminator_def list_all_iff takeWhile_eq_all_conv[THEN iffD2])

lemma afterLast_Cons:
  "\<not> list_all (\<lambda>c. \<not> isLineTerminator c) (c # p) \<Longrightarrow>
   afterLastLineTerminator (c # p) = afterLastLineTerminator p"
proof (cases "list_all (\<lambda>c. \<not> isLineTerminator c) p")
  case True
  assume "\<not> list_all (\<lambda>c. \<not> isLineTerminator c) (c # p)"
  with True have c: "isLineTerminator c" by simp
  have all: "\<And>x. x \<in> set (rev p) \<Longrightarrow> \<not> isLineTerminator x"
    using True by (simp add: list_all_iff)
  have "takeWhile (\<lambda>c. \<not> isLineTerminator c) (rev p @ [c]) =
        rev p @ takeWhile (\<lambda>c. \<not> isLineTerminator c) [c]"
    using all by (rule takeWhile_append2)
  then have a: "takeWhile (\<lambda>c. \<not> isLineTerminator c) (rev p @ [c]) = rev p"
    using c by simp
  have b: "takeWhile (\<lambda>c. \<not> isLineTerminator c) (rev p) = rev p"
    using all by (simp add: takeWhile_eq_all_conv[THEN iffD2])
  show ?thesis
    unfolding afterLastLineTerminator_def by (simp only: rev.simps a b)
next
  case False
  then obtain x where "x \<in> set (rev p)" "isLineTerminator x"
    by (auto simp: list_all_iff)
  then show ?thesis
    by (simp add: afterLastLineTerminator_def)
qed

lemma regexExec_append:
  "isHashSuffix suf \<Longrightarrow> regexExec (pre @ suf) = Some (afterLastLineTerminator pre)"
proof (induction pre)
  case Nil
  then obtain c cs where suf: "suf = c # cs"
    by (cases suf) (auto dest: isHashSuffix_len)
  have "matchHere ([] @ suf) = Some []" using Nil by (subst matchHere_append) simp_all
  then show ?case using suf by (simp add: afterLastLineTerminator_def)
next
  case (Cons c p)
  have m: "matchHere ((c # p) @ suf) =
        (if list_all (\<lambda>c. \<not> isLineTerminator c) (c # p) then Some (c # p) else None)"
    using Cons.prems by (rule matchHere_append)
  show ?case
  proof (cases "list_all (\<lambda>c. \<not> isLineTerminator c) (c # p)")
    case True
    then show ?thesis using m afterLast_clean[OF True] by simp
  next
    case False
    have "matchHere ((c # p) @ suf) = None" using m False by (simp only: if_False)
    then have "regexExec ((c # p) @ suf) = regexExec (p @ suf)" by simp
    then show ?thesis using Cons afterLast_Cons[OF False] by simp
  qed
qed

lemma regexExec_yes:
  "endsWithHash s \<Longrightarrow> regexExec s = Some (afterLastLineTerminator (take (length s - 10) s))"
proof -
  assume e: "endsWithHash s"
  then have h: "isHashSuffix (drop (length s - 10) s)" by (simp add: endsWithHash_def)
  have "regexExec (take (length s - 10) s @ drop (length s - 10) s) =
        Some (afterLastLineTerminator (take (length s - 10) s))"
    using h by (rule regexExec_append)
  then show ?thesis by simp
qed

text \<open>
  What \<open>yattr2markname\<close> computes. An attribute name that ends in \<open>--\<close> and eight
  characters of \<open>[a-zA-Z0-9+/=]\<close> is mapped to the part of its prefix that follows the
  prefix's last line terminator; that is the whole prefix when the prefix has no line
  terminator. Every other attribute name is returned unchanged.
\<close>

lemma yattr2markname_decode:
  "(endsWithHash name \<longrightarrow>
      yattr2markname name = afterLastLineTerminator (take (length name - 10) name)) \<and>
   (endsWithHash name \<and> list_all (\<lambda>c. \<not> isLineTerminator c) (take (length name - 10) name) \<longrightarrow>
      yattr2markname name = take (length name - 10) name) \<and>
   (\<not> endsWithHash name \<longrightarrow> yattr2markname name = name)"
  by (simp add: yattr2markname_def regexExec_yes regexExec_no afterLast_clean)

lemma yattr2markname_examples:
  "endsWithHash ''link--abcDEF+/'' \<and> yattr2markname ''link--abcDEF+/'' = ''link'' \<and>
   \<not> endsWithHash ''link'' \<and> yattr2markname ''link'' = ''link''"
  using yattr2markname_decode [of "''link--abcDEF+/''"] yattr2markname_decode [of "''link''"]
  by (simp add: endsWithHash_def isHashSuffix_def isHashChar_def isLineTerminator_def
      afterLastLineTerminator_def)

text \<open>
  Claim C10. The claim asks for the whole prefix before the final suffix. At the name
  made of \<open>a\<close>, a line feed and \<open>b--12345678\<close> the function returns \<open>b\<close> and not the
  prefix: the dot of the regular expression does not match the line feed, so the match
  starts behind it.
\<close>

theorem yattr2markname_line_terminator:
  "endsWithHash (''a'' @ [CHR 0x0A] @ ''b--12345678'') \<and>
   yattr2markname (''a'' @ [CHR 0x0A] @ ''b--12345678'') = ''b'' \<and>
   yattr2markname (''a'' @ [CHR 0x0A] @ ''b--12345678'') \<noteq>
     take (length (''a'' @ [CHR 0x0A] @ ''b--12345678'') - 10) (''a'' @ [CHR 0x0A] @ ''b--12345678'')"
  by (simp add: yattr2markname_def matchHere_def isHashSuffix_def isHashChar_def
      isLineTerminator_def endsWithHash_def)

section \<open>Properties of the selection restore\<close>

text \<open>
  Claim C8, as amended. With both stored endpoints present: for the kind \<open>all\<close> the
  selection of the whole document is set and no endpoint is resolved; for a range
  selection (a kind other than \<open>all\<close> and \<open>node\<close>), when the anchor or the head no
  longer resolves, the transaction's selection is left as it was and nothing is thrown,
  and a selection is set only from two resolved positions. Nothing is said here about
  the kind \<open>node\<close>.
\<close>

theorem restoreRelativeSelection_range_fallback:
  "sel_anchor rs = Some ra \<and> sel_head rs = Some rh \<longrightarrow>
     (sel_type rs = ''all'' \<longrightarrow>
        restoreRelativeSelection api resolve trSel (Some rs) = Inr (Some (newAllSelection api))) \<and>
     (sel_type rs \<noteq> ''all'' \<and> sel_type rs \<noteq> ''node'' \<longrightarrow>
        (resolve ra = None \<or> resolve rh = None \<longrightarrow>
           restoreRelativeSelection api resolve trSel (Some rs) = Inr trSel) \<and>
        (\<forall>s. restoreRelativeSelection api resolve None (Some rs) = Inr (Some s) \<longrightarrow>
           (\<exists>a h. resolve ra = Some a \<and> resolve rh = Some h \<and>
              textSelectionBetween api a h = Some s)))"
  by (auto simp: restoreRelativeSelection_def split: option.splits)

theorem restoreRelativeSelection_range_fallback_witness:
  "restoreRelativeSelection exApi (\<lambda>r::nat. if r = 0 then None else Some (int r)) None
     (Some \<lparr> sel_type = ''text'', sel_anchor = Some 0, sel_head = Some 5 \<rparr>) = Inr None \<and>
   restoreRelativeSelection exApi (\<lambda>r::nat. if r = 0 then None else Some (int r)) None
     (Some \<lparr> sel_type = ''text'', sel_anchor = Some 2, sel_head = Some 5 \<rparr>) = Inr (Some (ExText 2 5))"
  using restoreRelativeSelection_range_fallback
    [where rs = "\<lparr> sel_type = ''text'', sel_anchor = Some (0::nat), sel_head = Some 5 \<rparr>"
       and ra = 0 and rh = 5 and resolve = "\<lambda>r::nat. if r = 0 then None else Some (int r)"
       and api = exApi and trSel = None]
  by (simp add: restoreRelativeSelection_def exApi_def)

text \<open>
  Claim C8 as stated fails for the kind \<open>all\<close>: no endpoint is resolved, and the
  selection is set although neither anchor resolves.
\<close>

theorem restoreRelativeSelection_all_counterexample:
  "restoreRelativeSelection exApi (\<lambda>r::nat. None) None
     (Some \<lparr> sel_type = ''all'', sel_anchor = Some 0, sel_head = Some 0 \<rparr>) = Inr (Some ExAll)"
  by (simp add: restoreRelativeSelection_def exApi_def)

text \<open>
  The kind \<open>node\<close> passes the resolved anchor on without a check for \<open>null\<close>.
\<close>

lemma restoreRelativeSelection_node_unchecked:
  "restoreRelativeSelection exApi (\<lambda>r::nat. None) None
     (Some \<lparr> sel_type = ''node'', sel_anchor = Some 0, sel_head = Some 0 \<rparr>) = Inr (Some (ExNode None))"
  by (simp add: restoreRelativeSelection_def exApi_def)


section \<open>Properties of the snapshot renderer\<close>

lemma map_filter_if:
  "List.map_filter (\<lambda>t. if P t then f t else None) xs = List.map_filter f (filter P xs)"
  by (induction xs) (simp_all split: option.splits)

text \<open>
  Whatever the two snapshots, the rendered fragment holds the nodes built for the
  top-level shared nodes that pass the two filters of \<open>_renderSnapshot\<close>, in their order.
\<close>

lemma renderSnapshot_selection:
  "renderSnapshotContent itemOf create ts snap prevSnap =
     List.map_filter create
       (filter (\<lambda>t. isVisible (itemOf t) (Some \<lparr> snap_ds = snap_ds prevSnap, snap_sv = snap_sv snap \<rparr>) \<and>
                     (\<not> item_deleted (itemOf t) \<or> isVisible (itemOf t) (Some snap) \<or>
                        isVisible (itemOf t) (Some prevSnap))) ts)"
  unfolding renderSnapshotContent_def typeListToArraySnapshot_def map_filter_if renderedIn_def
  by (simp add: conj_commute)

lemma rendered_iff_visible:
  assumes ord: "snapshotsInOrder itemOf ts snap prevSnap" and t: "t \<in> set ts"
  shows "(isVisible (itemOf t) (Some \<lparr> snap_ds = snap_ds prevSnap, snap_sv = snap_sv snap \<rparr>) \<and>
          renderedIn (itemOf t) snap prevSnap) =
         (isVisible (itemOf t) (Some snap) \<or> isVisible (itemOf t) (Some prevSnap))"
proof -
  have sv: "\<And>c k. map_of (snap_sv prevSnap) c = Some k \<Longrightarrow>
              \<exists>k'. map_of (snap_sv snap) c = Some k' \<and> k \<le> k'"
  proof -
    fix c k assume "map_of (snap_sv prevSnap) c = Some k"
    then have "(c, k) \<in> set (snap_sv prevSnap)" by (rule map_of_SomeD)
    then show "\<exists>k'. map_of (snap_sv snap) c = Some k' \<and> k \<le> k'"
      using ord by (auto simp: snapshotsInOrder_def list_all_iff split: option.splits)
  qed
  have ds: "isDeleted (snap_ds prevSnap) (itemOf t) \<Longrightarrow> isDeleted (snap_ds snap) (itemOf t)"
    and sound: "isDeleted (snap_ds snap) (itemOf t) \<Longrightarrow> item_deleted (itemOf t)"
    using ord t by (auto simp: snapshotsInOrder_def list_all_iff)
  show ?thesis
    using ds sound
    by (auto simp: isVisible_def renderedIn_def split: option.splits dest!: sv)
qed

text \<open>
  Claim C5. Let the two snapshots be snapshots of one document, the previous one taken
  before the current one. Then the rendered fragment holds, in their order, the nodes
  built for exactly those top-level shared nodes that are visible under the current
  snapshot or under the previous one; a node that is visible under neither is omitted.
  (A node whose construction yields nothing contributes nothing.)
\<close>

theorem renderSnapshot_visibility:
  assumes ord: "snapshotsInOrder itemOf ts snap prevSnap"
  shows "renderSnapshotContent itemOf create ts snap prevSnap =
           List.map_filter create
             (filter (\<lambda>t. isVisible (itemOf t) (Some snap) \<or> isVisible (itemOf t) (Some prevSnap)) ts)"
proof -
  have "filter (\<lambda>t. renderedIn (itemOf t) snap prevSnap)
          (filter (\<lambda>t. isVisible (itemOf t) (Some \<lparr> snap_ds = snap_ds prevSnap, snap_sv = snap_sv snap \<rparr>)) ts) =
        filter (\<lambda>t. isVisible (itemOf t) (Some snap) \<or> isVisible (itemOf t) (Some prevSnap)) ts"
    unfolding filter_filter
    using rendered_iff_visible[OF ord] by (intro filter_cong[OF refl]) auto
  then show ?thesis
    unfolding renderSnapshotContent_def typeListToArraySnapshot_def map_filter_if by simp
qed

theorem renderSnapshot_visibility_witness:
  "snapshotsInOrder id exHistory exLater exEarlier \<and>
   renderSnapshotContent id Some exHistory exLater exEarlier = [exHistory ! 1, exHistory ! 2] \<and>
   \<not> isVisible (exHistory ! 0) (Some exLater) \<and> \<not> isVisible (exHistory ! 0) (Some exEarlier) \<and>
   isVisible (exHistory ! 1) (Some exEarlier) \<and> isVisible (exHistory ! 2) (Some exLater) \<and>
   \<not> isVisible (exHistory ! 3) (Some exLater) \<and> \<not> isVisible (exHistory ! 3) (Some exEarlier)"
proof -
  have ord: "snapshotsInOrder id exHistory exLater exEarlier"
    by (simp add: snapshotsInOrder_def exHistory_def exLater_def exEarlier_def isDeleted_def)
  show ?thesis
    using renderSnapshot_visibility [OF ord, of Some] ord
    by (simp add: exHistory_def exLater_def exEarlier_def isVisible_def isDeleted_def
        List.map_filter_simps)
qed

section \<open>Properties of the child alignment\<close>

lemma factorLeft_bounds:
  "left \<le> minCnt \<Longrightarrow> left \<le> fst (factorLeft m ys ps minCnt left found) \<and>
     fst (factorLeft m ys ps minCnt left found) \<le> minCnt"
proof (induction m ys ps minCnt left found rule: factorLeft.induct)
  case (1 m yChildren pChildren minCnt left found)
  show ?case
  proof (cases "left < minCnt")
    case True
    note IH1 = 1(1)[OF True refl refl]
    note IH2 = 1(2)[OF True refl refl]
    show ?thesis using True IH1 IH2
      by (subst (1 2) factorLeft.simps) (auto simp: Let_def)
  next
    case False
    then show ?thesis using 1(3) by (subst (1 2) factorLeft.simps) simp
  qed
qed

lemma factorLeft_reaches:
  "\<lbrakk> left \<le> k; k \<le> minCnt; \<forall>i. left \<le> i \<and> i < k \<longrightarrow> equalYTypePNode (ys ! i) (ps ! i) \<rbrakk>
   \<Longrightarrow> k \<le> fst (factorLeft m ys ps minCnt left found)"
proof (induction m ys ps minCnt left found rule: factorLeft.induct)
  case (1 m yChildren pChildren minCnt left found)
  show ?case
  proof (cases "left < k")
    case True
    then have lt: "left < minCnt" using 1(4) by simp
    have eq: "equalYTypePNode (yChildren ! left) (pChildren ! left)" using 1(5) True by simp
    have next_ok: "left + 1 \<le> k" using True by simp
    have rest: "\<forall>i. left + 1 \<le> i \<and> i < k \<longrightarrow> equalYTypePNode (yChildren ! i) (pChildren ! i)"
      using 1(5) by simp
    note IH1 = 1(1)[OF lt refl refl _ next_ok 1(4) rest]
    note IH2 = 1(2)[OF lt refl refl _ _ next_ok 1(4) rest]
    show ?thesis using lt eq IH1 IH2
      by (subst factorLeft.simps) (auto simp: Let_def)
  next
    case False
    then have "left = k" using 1(3) by simp
    then show ?thesis
      using factorLeft_bounds[of left minCnt m yChildren pChildren found] 1(4) by simp
  qed
qed

lemma factorRight_all:
  "\<lbrakk> left \<le> minCnt;
     \<forall>r. right \<le> r \<and> left + r < minCnt \<longrightarrow>
        equalYTypePNode (ys ! (length ys - r - 1)) (ps ! (length ps - r - 1)) \<rbrakk>
   \<Longrightarrow> left + fst (factorRight m ys ps minCnt left right found) = max (left + right) minCnt"
proof (induction m ys ps minCnt left right found rule: factorRight.induct)
  case (1 m yChildren pChildren minCnt left right found)
  show ?case
  proof (cases "left + right < minCnt")
    case True
    have eq: "equalYTypePNode (yChildren ! (length yChildren - right - 1))
                (pChildren ! (length pChildren - right - 1))"
      using 1(4) True by simp
    have rest: "\<forall>r. right + 1 \<le> r \<and> left + r < minCnt \<longrightarrow>
        equalYTypePNode (yChildren ! (length yChildren - r - 1))
          (pChildren ! (length pChildren - r - 1))"
      using 1(4) by simp
    note IH1 = 1(1)[OF True refl refl _ 1(3) rest]
    note IH2 = 1(2)[OF True refl refl _ _ 1(3) rest]
    show ?thesis using True eq IH1 IH2
      by (subst factorRight.simps) (auto simp: Let_def)
  next
    case False
    then show ?thesis by (subst factorRight.simps) simp
  qed
qed

text \<open>
  Claim C2. Let the normalized children of the editable node be the children of the
  shared node with one element inserted at position \<open>k\<close>: the positions before \<open>k\<close> are
  pairwise structurally equal, and every shared child from \<open>k\<close> on is structurally equal
  to the editable child one position further. Then the equality factor is the smaller
  of the two lengths. This holds for every position \<open>k\<close>, so for one in the middle, and
  whether or not the inserted element equals a neighbour.
\<close>

theorem computeChildEqualityFactor_single_insertion:
  assumes len: "length (normalizePNodeContent pnode) = length (toArray ytype) + 1"
    and k: "k \<le> length (toArray ytype)"
    and before: "\<forall>i. i < k \<longrightarrow> equalYTypePNode (toArray ytype ! i) (normalizePNodeContent pnode ! i)"
    and after: "\<forall>i. k \<le> i \<and> i < length (toArray ytype) \<longrightarrow>
                  equalYTypePNode (toArray ytype ! i) (normalizePNodeContent pnode ! (i + 1))"
  shows "equalityFactor (computeChildEqualityFactor ytype pnode m) =
           min (length (toArray ytype)) (length (normalizePNodeContent pnode))"
proof -
  define ys where "ys = toArray ytype"
  define ps where "ps = normalizePNodeContent pnode"
  define n where "n = length ys"
  define left where "left = fst (factorLeft m ys ps n 0 False)"
  define found where "found = snd (factorLeft m ys ps n 0 False)"
  have lenp: "length ps = n + 1" using len by (simp add: ys_def ps_def n_def)
  have kl: "k \<le> left" unfolding left_def
    using factorLeft_reaches[of 0 k n ys ps m False] k before by (simp add: ys_def ps_def n_def)
  have ln: "left \<le> n" unfolding left_def
    using factorLeft_bounds[of 0 n m ys ps False] by simp
  have "\<forall>r. 0 \<le> r \<and> left + r < n \<longrightarrow>
          equalYTypePNode (ys ! (length ys - r - 1)) (ps ! (length ps - r - 1))"
  proof (intro allI impI)
    fix r assume r: "0 \<le> r \<and> left + r < n"
    then have "k \<le> n - r - 1" "n - r - 1 < n" using kl by auto
    then have "equalYTypePNode (ys ! (n - r - 1)) (ps ! (n - r - 1 + 1))"
      using after by (simp add: ys_def ps_def n_def)
    moreover have "n - r - 1 + 1 = length ps - r - 1" using r lenp by simp
    ultimately show "equalYTypePNode (ys ! (length ys - r - 1)) (ps ! (length ps - r - 1))"
      by (simp add: n_def)
  qed
  then have "left + fst (factorRight m ys ps n left 0 found) = max (left + 0) n"
    using ln by (intro factorRight_all) auto
  then have sum: "left + fst (factorRight m ys ps n left 0 found) = n" using ln by simp
  have minn: "min (length ys) (length ps) = n" using lenp by (simp add: n_def)
  show ?thesis
    using sum minn
    by (simp add: computeChildEqualityFactor_def Let_def split_beta left_def found_def
        ys_def[symmetric] ps_def[symmetric])
qed

lemma exY2_children:
  "toArray exY2 = [XmlElement 1 (liveItem 1 1) ''paragraph'' [] [],
                   XmlElement 2 (liveItem 1 2) ''heading'' [] []]"
  by (simp add: exY2_def toArray_def visible_def liveItem_def)

lemma exP3_children:
  "normalizePNodeContent exP3 =
     [PNodeC (PElement ''paragraph'' [] [] []), PNodeC (PElement ''image'' [] [] []),
      PNodeC (PElement ''heading'' [] [] [])]"
  by (simp add: exP3_def normalizePNodeContent_def)

lemma equal_empty_element:
  "equalYTypePNode (XmlElement r it name [] []) (PNodeC (PElement name' [] [] [])) = (name = name')"
  by (subst equalYTypePNode.simps)
     (auto simp: normalizePNodeContent_def toArray_def visible_def equalAttrs.simps equalMarks_def
        nodeMarksToAttributes_def)

theorem computeChildEqualityFactor_single_insertion_witness:
  "length (normalizePNodeContent exP3) = length (toArray exY2) + 1 \<and>
   equalYTypePNode (toArray exY2 ! 0) (normalizePNodeContent exP3 ! 0) \<and>
   equalYTypePNode (toArray exY2 ! 1) (normalizePNodeContent exP3 ! 2) \<and>
   \<not> equalYTypePNode (toArray exY2 ! 0) (normalizePNodeContent exP3 ! 1) \<and>
   \<not> equalYTypePNode (toArray exY2 ! 1) (normalizePNodeContent exP3 ! 1) \<and>
   equalityFactor (computeChildEqualityFactor exY2 exP3 emptyMeta) = 2"
proof -
  have len: "length (normalizePNodeContent exP3) = length (toArray exY2) + 1"
    by (simp add: exY2_children exP3_children)
  have k: "(1::nat) \<le> length (toArray exY2)" by (simp add: exY2_children)
  have before: "\<forall>i. i < 1 \<longrightarrow> equalYTypePNode (toArray exY2 ! i) (normalizePNodeContent exP3 ! i)"
    by (simp add: exY2_children exP3_children equal_empty_element)
  have after: "\<forall>i. 1 \<le> i \<and> i < length (toArray exY2) \<longrightarrow>
                  equalYTypePNode (toArray exY2 ! i) (normalizePNodeContent exP3 ! (i + 1))"
  proof (intro allI impI)
    fix i assume "1 \<le> i \<and> i < length (toArray exY2)"
    then have "i = 1" by (simp add: exY2_children)
    then show "equalYTypePNode (toArray exY2 ! i) (normalizePNodeContent exP3 ! (i + 1))"
      by (simp add: exY2_children exP3_children equal_empty_element)
  qed
  show ?thesis
    using computeChildEqualityFactor_single_insertion [OF len k before after, of emptyMeta]
    by (simp add: exY2_children exP3_children equal_empty_element)
qed

section \<open>Properties of the forward synchronizer\<close>

lemma chooseUpdate_left:
  "chooseUpdate leftY leftP rightY rightP m = (True, ur) \<Longrightarrow> isXmlElement leftY \<and> matchNodeName leftY leftP"
  by (auto simp: chooseUpdate_def Let_def split: if_splits pcontent.splits)

lemma chooseUpdate_right:
  "chooseUpdate leftY leftP rightY rightP m = (ul, True) \<Longrightarrow> isXmlElement rightY \<and> matchNodeName rightY rightP"
  by (auto simp: chooseUpdate_def Let_def split: if_splits pcontent.splits)

lemma updateChildren_stop:
  "\<not> (length yChildren - left - right > 0 \<and> length (normalizePNodeContent pNode) - left - right > 0)
   \<Longrightarrow> updateChildren e yChildren pNode left right cur st = (None, left, right, cur, st)"
  by (subst updateChildren.simps) (auto simp add: Let_def)

lemma updateChildren_lost:
  "length yChildren - left - right > 0 \<and> length (normalizePNodeContent pNode) - left - right > 0
   \<Longrightarrow> findRef cur (yChildren ! left) = None \<or>
       findRef cur (yChildren ! (length yChildren - right - 1)) = None
   \<Longrightarrow> updateChildren e yChildren pNode left right cur st = (Some TypeError, left, right, cur, st)"
  by (subst updateChildren.simps) (auto simp add: Let_def split: option.splits)

lemma updateChildren_text:
  "length yChildren - left - right > 0 \<and> length (normalizePNodeContent pNode) - left - right > 0
   \<Longrightarrow> findRef cur (yChildren ! left) = Some leftY
   \<Longrightarrow> findRef cur (yChildren ! (length yChildren - right - 1)) = Some rightY
   \<Longrightarrow> isXmlText leftY \<and> isArray (normalizePNodeContent pNode ! left)
   \<Longrightarrow> updateChildren e yChildren pNode left right cur st =
       (let (leftY', st') = updateTextChild e leftY (theTexts (normalizePNodeContent pNode ! left)) st
        in updateChildren e yChildren pNode (left + 1) right (replaceRef cur leftY') st')"
  by (subst updateChildren.simps) (auto simp add: Let_def)

lemma updateChildren_left:
  "length yChildren - left - right > 0 \<and> length (normalizePNodeContent pNode) - left - right > 0
   \<Longrightarrow> findRef cur (yChildren ! left) = Some leftY
   \<Longrightarrow> findRef cur (yChildren ! (length yChildren - right - 1)) = Some rightY
   \<Longrightarrow> \<not> (isXmlText leftY \<and> isArray (normalizePNodeContent pNode ! left))
   \<Longrightarrow> chooseUpdate leftY (normalizePNodeContent pNode ! left) rightY
         (normalizePNodeContent pNode ! (length (normalizePNodeContent pNode) - right - 1)) (fst st)
       = (True, ur)
   \<Longrightarrow> normalizePNodeContent pNode ! left = PNodeC lp
   \<Longrightarrow> updateChildren e yChildren pNode left right cur st =
       (case updateYFragment e leftY lp st of
          (Some err, y', st') \<Rightarrow> (Some err, left, right, replaceRef cur y', st')
        | (None, y', st') \<Rightarrow>
            updateChildren e yChildren pNode (left + 1) right (replaceRef cur y') st')"
  by (subst updateChildren.simps) (auto simp add: Let_def)

lemma updateChildren_right:
  "length yChildren - left - right > 0 \<and> length (normalizePNodeContent pNode) - left - right > 0
   \<Longrightarrow> findRef cur (yChildren ! left) = Some leftY
   \<Longrightarrow> findRef cur (yChildren ! (length yChildren - right - 1)) = Some rightY
   \<Longrightarrow> \<not> (isXmlText leftY \<and> isArray (normalizePNodeContent pNode ! left))
   \<Longrightarrow> chooseUpdate leftY (normalizePNodeContent pNode ! left) rightY
         (normalizePNodeContent pNode ! (length (normalizePNodeContent pNode) - right - 1)) (fst st)
       = (False, True)
   \<Longrightarrow> normalizePNodeContent pNode ! (length (normalizePNodeContent pNode) - right - 1) = PNodeC rp
   \<Longrightarrow> updateChildren e yChildren pNode left right cur st =
       (case updateYFragment e rightY rp st of
          (Some err, y', st') \<Rightarrow> (Some err, left, right, replaceRef cur y', st')
        | (None, y', st') \<Rightarrow>
            updateChildren e yChildren pNode left (right + 1) (replaceRef cur y') st')"
  by (subst updateChildren.simps) (auto simp add: Let_def)

lemma updateChildren_replace:
  "length yChildren - left - right > 0 \<and> length (normalizePNodeContent pNode) - left - right > 0
   \<Longrightarrow> findRef cur (yChildren ! left) = Some leftY
   \<Longrightarrow> findRef cur (yChildren ! (length yChildren - right - 1)) = Some rightY
   \<Longrightarrow> \<not> (isXmlText leftY \<and> isArray (normalizePNodeContent pNode ! left))
   \<Longrightarrow> chooseUpdate leftY (normalizePNodeContent pNode ! left) rightY
         (normalizePNodeContent pNode ! (length (normalizePNodeContent pNode) - right - 1)) (fst st)
       = (False, False)
   \<Longrightarrow> updateChildren e yChildren pNode left right cur st =
       (let (cur', st') = replaceChild e (normalizePNodeContent pNode ! left) left cur st
        in updateChildren e yChildren pNode (left + 1) right cur' st')"
  by (subst updateChildren.simps) (auto simp add: Let_def)

lemma no_inner_mismatch:
  "(fst (updateYFragment e y p st) = Some NodeNameMismatch \<longrightarrow>
      isXmlElement y \<and> nodeName y \<noteq> Some (pTypeName p))"
  "fst (updateChildren e yc p l r cur st) \<noteq> Some NodeNameMismatch"
proof (induction e y p st and e yc p l r cur st rule: updateYFragment_updateChildren.induct)
  case (1 e yDomFragment pNode st)
  show ?case
  proof (cases "isXmlElement yDomFragment \<and> nodeName yDomFragment \<noteq> Some (pTypeName pNode)")
    case True
    then show ?thesis by simp
  next
    case nm: False
    define y0 where "y0 = (if isXmlElement yDomFragment
                   then setAttributes yDomFragment
                          (updateAttributes (getAttributes yDomFragment) pNode)
                   else yDomFragment)"
    show ?thesis
    proof (cases "isXmlText y0 \<or> isXmlHook y0")
      case True
      then show ?thesis using nm
        by (subst updateYFragment.simps) (simp add: Let_def y0_def)
    next
      case nb: False
      note IH = 1[OF nm refl refl nb[unfolded y0_def] refl refl refl refl prod.collapse refl prod.collapse]
      show ?thesis using nm nb IH
        by (subst updateYFragment.simps)
           (auto simp: Let_def y0_def split_beta split: option.splits)
    qed
  qed
next
  case (2 e yChildren pNode left right cur st)
  let ?pcs = "normalizePNodeContent pNode"
  let ?G = "length yChildren - left - right > 0 \<and> length ?pcs - left - right > 0"
  show ?case
  proof (cases ?G)
    case False
    then show ?thesis by (simp add: updateChildren_stop)
  next
    case G: True
    show ?thesis
    proof (cases "findRef cur (yChildren ! left) = None \<or>
       findRef cur (yChildren ! (length yChildren - right - 1)) = None")
      case True
      then show ?thesis using G by (simp add: updateChildren_lost)
    next
      case False
      then obtain leftY rightY where
        fl: "findRef cur (yChildren ! left) = Some leftY" and
        fr: "findRef cur (yChildren ! (length yChildren - right - 1)) = Some rightY"
        by auto
      let ?leftP = "?pcs ! left"
      let ?rightP = "?pcs ! (length ?pcs - right - 1)"
      show ?thesis
      proof (cases "isXmlText leftY \<and> isArray ?leftP")
        case tx: True
        note IH = 2(1)[OF refl refl refl G refl fl fr refl refl tx refl prod.collapse]
        show ?thesis using IH
          by (simp add: updateChildren_text[OF G fl fr tx] split_beta)
      next
        case ntx: False
        obtain ul ur where ch: "chooseUpdate leftY ?leftP rightY ?rightP (fst st) = (ul, ur)"
          by (cases "chooseUpdate leftY ?leftP rightY ?rightP (fst st)") auto
        show ?thesis
        proof (cases ul)
          case True
          then have chT: "chooseUpdate leftY ?leftP rightY ?rightP (fst st) = (True, ur)"
            using ch by simp
          have m: "isXmlElement leftY \<and> matchNodeName leftY ?leftP"
            using chT by (rule chooseUpdate_left)
          then obtain lp where lp: "?leftP = PNodeC lp" by (cases ?leftP) auto
          have nn: "nodeName leftY = Some (pTypeName lp)" using m lp by simp
          note IHP = 2(2)[OF refl refl refl G refl fl fr refl refl ntx refl chT[symmetric] TrueI lp]
          have ne: "fst (updateYFragment e leftY lp st) \<noteq> Some NodeNameMismatch"
            using IHP nn by auto
          show ?thesis
          proof (cases "fst (updateYFragment e leftY lp st)")
            case None
            obtain y' st' where r: "updateYFragment e leftY lp st = (None, y', st')"
              using None by (cases "updateYFragment e leftY lp st") auto
            note IHQ = 2(3)[OF refl refl refl G refl fl fr refl refl ntx refl chT[symmetric] TrueI lp
                r[symmetric] refl refl]
            show ?thesis using IHQ
              by (simp add: updateChildren_left[OF G fl fr ntx chT lp] r)
          next
            case (Some err)
            then obtain y' st' where r: "updateYFragment e leftY lp st = (Some err, y', st')"
              by (cases "updateYFragment e leftY lp st") auto
            show ?thesis using ne r
              by (simp add: updateChildren_left[OF G fl fr ntx chT lp])
          qed
        next
          case ulF: False
          show ?thesis
          proof (cases ur)
            case True
            then have chT: "chooseUpdate leftY ?leftP rightY ?rightP (fst st) = (False, True)"
              using ch ulF by simp
            have m: "isXmlElement rightY \<and> matchNodeName rightY ?rightP"
              using chT by (rule chooseUpdate_right)
            then obtain rp where rp: "?rightP = PNodeC rp" by (cases ?rightP) auto
            have nn: "nodeName rightY = Some (pTypeName rp)" using m rp by simp
            note IHP = 2(4)[OF refl refl refl G refl fl fr refl refl ntx refl chT[symmetric] _ TrueI rp]
            have ne: "fst (updateYFragment e rightY rp st) \<noteq> Some NodeNameMismatch"
              using IHP nn by auto
            show ?thesis
            proof (cases "fst (updateYFragment e rightY rp st)")
              case None
              obtain y' st' where r: "updateYFragment e rightY rp st = (None, y', st')"
                using None by (cases "updateYFragment e rightY rp st") auto
              note IHQ = 2(5)[OF refl refl refl G refl fl fr refl refl ntx refl chT[symmetric] _ TrueI rp
                  r[symmetric] refl refl]
              show ?thesis using IHQ
                by (simp add: updateChildren_right[OF G fl fr ntx chT rp] r)
            next
              case (Some err)
              then obtain y' st' where r: "updateYFragment e rightY rp st = (Some err, y', st')"
                by (cases "updateYFragment e rightY rp st") auto
              show ?thesis using ne r
                by (simp add: updateChildren_right[OF G fl fr ntx chT rp])
            qed
          next
            case False
            then have chF: "chooseUpdate leftY ?leftP rightY ?rightP (fst st) = (False, False)"
              using ch ulF by simp
            note IH = 2(6)[OF refl refl refl G refl fl fr refl refl ntx refl chF[symmetric] _ _ refl
                prod.collapse]
            show ?thesis using IH
              by (simp add: updateChildren_replace[OF G fl fr ntx chF] split_beta)
          qed
        qed
      qed
    qed
  qed
qed

text \<open>
  Claim C9. When \<open>updateYFragment\<close> throws the node-name mismatch, the fragment and
  the state (mapping table and document) are those it was called with, and the fragment
  is an element whose name differs from the type name of the editable node: the throw is
  that of the entry check. The loop over the dirty middle never ends in this error: it
  calls \<open>updateYFragment\<close> only for a child whose name \<open>matchNodeName\<close> has matched.
\<close>

theorem updateYFragment_mismatch_atomic:
  "(fst (updateYFragment e y p st) = Some NodeNameMismatch \<longrightarrow>
      updateYFragment e y p st = (Some NodeNameMismatch, y, st) \<and>
      isXmlElement y \<and> nodeName y \<noteq> Some (pTypeName p)) \<and>
   fst (updateChildren e yc p' l r cur st') \<noteq> Some NodeNameMismatch"
proof -
  have "fst (updateYFragment e y p st) = Some NodeNameMismatch \<longrightarrow>
      isXmlElement y \<and> nodeName y \<noteq> Some (pTypeName p)"
    by (rule no_inner_mismatch)
  moreover have "isXmlElement y \<and> nodeName y \<noteq> Some (pTypeName p) \<Longrightarrow>
      updateYFragment e y p st = (Some NodeNameMismatch, y, st)"
    by (subst updateYFragment.simps) simp
  ultimately show ?thesis using no_inner_mismatch(2) by blast
qed

theorem updateYFragment_mismatch_atomic_witness:
  "updateYFragment exEnv exParagraph (PElement ''heading'' [] [] []) exState =
     (Some NodeNameMismatch, exParagraph, exState) \<and>
   fst (updateChildren exEnv [1, 2] exDocAligned 0 0 exTwoParagraphs exState) \<noteq> Some NodeNameMismatch"
proof -
  have "fst (updateYFragment exEnv exParagraph (PElement ''heading'' [] [] []) exState) =
          Some NodeNameMismatch"
    by (subst updateYFragment.simps) (simp add: exParagraph_def)
  then show ?thesis
    using updateYFragment_mismatch_atomic
      [of exEnv exParagraph "PElement ''heading'' [] [] []" exState "[1, 2]" exDocAligned 0 0
          exTwoParagraphs exState]
    by simp
qed

lemma alignLeft_zero: "alignLeft ys ps 0 left st = (left, st)"
  by (subst alignLeft.simps) simp

lemma alignRight_zero: "alignRight ys ps 0 left right st = (right, st)"
  by (subst alignRight.simps) simp

lemma findRef_distinct:
  "distinct (map yref ts) \<Longrightarrow> t \<in> set ts \<Longrightarrow> findRef ts (yref t) = Some t"
  unfolding findRef_def by (induction ts) auto

lemma replaceRef_other: "yref t' \<notin> yref ` set ts \<Longrightarrow> replaceRef ts t' = ts"
  unfolding replaceRef_def by (induction ts) auto

lemma map_other: "t \<notin> set ts \<Longrightarrow> map (\<lambda>x. if x = t then t' else x) ts = ts"
  by (induction ts) auto

lemma visible_replaceRef:
  "distinct (map yref ts) \<Longrightarrow> t \<in> set ts \<Longrightarrow> yref t' = yref t \<Longrightarrow> yDeleted t' = yDeleted t \<Longrightarrow>
   visible (replaceRef ts t') = map (\<lambda>x. if x = t then t' else x) (visible ts)"
proof (induction ts)
  case Nil
  then show ?case by simp
next
  case (Cons a ts)
  show ?case
  proof (cases "a = t")
    case True
    then have nr: "yref t' \<notin> yref ` set ts" using Cons.prems by auto
    have nt: "t \<notin> set (visible ts)" using True Cons.prems(1) by (auto simp: visible_def)
    show ?thesis using True Cons.prems(3,4) replaceRef_other[OF nr] map_other[OF nt]
      by (simp add: visible_def replaceRef_def)
  next
    case False
    then have mem: "t \<in> set ts" using Cons.prems(2) by simp
    then have "yref a \<noteq> yref t" using Cons.prems(1) by auto
    then show ?thesis using False Cons.IH[OF _ mem Cons.prems(3,4)] Cons.prems(1,3)
      by (simp add: visible_def replaceRef_def)
  qed
qed

lemma refs_replaceRef: "map yref (replaceRef ts t') = map yref ts"
  unfolding replaceRef_def by (induction ts) auto

lemma toArray_nonempty_kind: "toArray y \<noteq> [] \<Longrightarrow> \<not> isXmlText y \<and> \<not> isXmlHook y"
  by (cases y) (auto simp: toArray_def visible_def)

lemma yItems_setAttributes [simp]: "yItems (setAttributes y a) = yItems y"
  by (cases y) auto

lemma toArray_setAttributes [simp]: "toArray (setAttributes y a) = toArray y"
  by (simp add: toArray_def)

lemma kind_setAttributes [simp]:
  "isXmlText (setAttributes y a) = isXmlText y" "isXmlHook (setAttributes y a) = isXmlHook y"
  by (cases y; simp)+

lemma yItems_setItems: "\<not> isXmlText y \<Longrightarrow> \<not> isXmlHook y \<Longrightarrow> yItems (setItems y cs) = cs"
  by (cases y) auto

text \<open>
  Claim C3. Let the shared fragment have exactly one visible child, a text run, and let
  the normalized content of the editable node be empty (the identities of the
  fragment's items are distinct, and the node names match). Then \<open>updateYFragment\<close>
  returns without an error, the fragment still has exactly that text run as its visible
  child, with the same identity and the same item, now without content; no item of the
  fragment is removed or added; and the mapping table has no entry for the run.
\<close>

theorem updateYFragment_lone_text_cleared:
  assumes one: "toArray y = [XmlText r it cs]"
    and none: "normalizePNodeContent p = []"
    and refs: "distinct (map yref (yItems y))"
    and name: "\<not> (isXmlElement y \<and> nodeName y \<noteq> Some (pTypeName p))"
  shows "fst (updateYFragment e y p st) = None \<and>
         toArray (fst (snd (updateYFragment e y p st))) = [XmlText r it []] \<and>
         map yref (yItems (fst (snd (updateYFragment e y p st)))) = map yref (yItems y) \<and>
         mapping (fst (snd (snd (updateYFragment e y p st)))) r = None"
proof -
  define y0 where "y0 = (if isXmlElement y
                   then setAttributes y (updateAttributes (getAttributes y) p) else y)"
  define st0 where "st0 = mappingSet (yref y) (PNodeC p) st"
  have kind: "\<not> isXmlText y \<and> \<not> isXmlHook y" using one toArray_nonempty_kind[of y] by simp
  then have kind0: "\<not> (isXmlText y0 \<or> isXmlHook y0)" by (simp add: y0_def)
  have arr0: "toArray y0 = [XmlText r it cs]" using one by (simp add: y0_def)
  have items0: "yItems y0 = yItems y" by (simp add: y0_def)
  have "XmlText r it cs \<in> set (filter (\<lambda>t. \<not> yDeleted t) (yItems y))"
    using one by (simp add: toArray_def visible_def)
  then have mem: "XmlText r it cs \<in> set (yItems y)"
    by auto
  have fr: "findRef (yItems y) r = Some (XmlText r it cs)"
    using findRef_distinct[OF refs mem] by simp
  have loop: "updateChildren e [r] p 0 0 (yItems y) st0 = (None, 0, 0, yItems y, st0)"
    using none by (simp add: updateChildren_stop)
  have fin: "finishChildren e [XmlText r it cs] [] 0 0 (yItems y) st0 =
               (replaceRef (yItems y) (XmlText r it []), mappingDelete r st0)"
    by (simp add: finishChildren_def fr ytextDelete_def)
  have res: "updateYFragment e y p st =
        (None, setItems y0 (replaceRef (yItems y) (XmlText r it [])), mappingDelete r st0)"
    using name kind0 arr0 items0 none loop fin
    by (subst updateYFragment.simps)
       (simp add: Let_def y0_def[symmetric] st0_def[symmetric] alignLeft_zero alignRight_zero)
  have vis: "visible (replaceRef (yItems y) (XmlText r it [])) = [XmlText r it []]"
    using visible_replaceRef[OF refs mem, of "XmlText r it []"] one
    by (simp add: toArray_def)
  have kind0': "\<not> isXmlText y0" "\<not> isXmlHook y0" using kind0 by auto
  show ?thesis
    using vis
    by (simp add: res toArray_def yItems_setItems[OF kind0'] refs_replaceRef mappingDelete_def)
qed

theorem updateYFragment_lone_text_cleared_witness:
  "toArray exParagraph = [XmlText 6 (liveItem 2 8) [(CHR ''a'', []), (CHR ''b'', [])]] \<and>
   normalizePNodeContent (PElement ''paragraph'' [] [] []) = [] \<and>
   toArray (fst (snd (updateYFragment exEnv exParagraph (PElement ''paragraph'' [] [] []) exState)))
     = [XmlText 6 (liveItem 2 8) []] \<and>
   mapping (fst (snd (snd (updateYFragment exEnv exParagraph (PElement ''paragraph'' [] [] []) exState)))) 6
     = None"
proof -
  have one: "toArray exParagraph = [XmlText 6 (liveItem 2 8) [(CHR ''a'', []), (CHR ''b'', [])]]"
    by (simp add: exParagraph_def toArray_def visible_def liveItem_def)
  have none: "normalizePNodeContent (PElement ''paragraph'' [] [] []) = []"
    by (simp add: normalizePNodeContent_def)
  have refs: "distinct (map yref (yItems exParagraph))" by (simp add: exParagraph_def)
  have name: "\<not> (isXmlElement exParagraph \<and>
      nodeName exParagraph \<noteq> Some (pTypeName (PElement ''paragraph'' [] [] [])))"
    by (simp add: exParagraph_def)
  show ?thesis
    using updateYFragment_lone_text_cleared [OF one none refs name, of exEnv exState] one none
    by simp
qed

text \<open>
  Claim C4, as amended. In the loop over the dirty middle, let the children under the
  left and the right pointer both be elements whose names match their editable
  counterparts, let both sides agree on \<open>foundMappedChild\<close> and let their equality
  factors be equal. Then the decision is to update the left side: the loop descends into
  the left child and goes on with only the left pointer advanced.
\<close>

theorem updateChildren_tie_updates_left:
  assumes G: "length yChildren - left - right > 0 \<and>
              length (normalizePNodeContent pNode) - left - right > 0"
    and fl: "findRef cur (yChildren ! left) = Some leftY"
    and fr: "findRef cur (yChildren ! (length yChildren - right - 1)) = Some rightY"
    and lp: "normalizePNodeContent pNode ! left = PNodeC lp"
    and rp: "normalizePNodeContent pNode ! (length (normalizePNodeContent pNode) - right - 1) = PNodeC rp"
    and ml: "isXmlElement leftY \<and> matchNodeName leftY (PNodeC lp)"
    and mr: "isXmlElement rightY \<and> matchNodeName rightY (PNodeC rp)"
    and found: "foundMappedChild (computeChildEqualityFactor leftY lp (fst st)) =
                foundMappedChild (computeChildEqualityFactor rightY rp (fst st))"
    and factor: "equalityFactor (computeChildEqualityFactor leftY lp (fst st)) =
                 equalityFactor (computeChildEqualityFactor rightY rp (fst st))"
  shows "chooseUpdate leftY (PNodeC lp) rightY (PNodeC rp) (fst st) = (True, False) \<and>
         updateChildren e yChildren pNode left right cur st =
           (case updateYFragment e leftY lp st of
              (Some err, y', st') \<Rightarrow> (Some err, left, right, replaceRef cur y', st')
            | (None, y', st') \<Rightarrow>
                updateChildren e yChildren pNode (left + 1) right (replaceRef cur y') st')"
proof -
  have ch: "chooseUpdate leftY (PNodeC lp) rightY (PNodeC rp) (fst st) = (True, False)"
    using ml mr found factor by (simp add: chooseUpdate_def Let_def)
  have ntx: "\<not> (isXmlText leftY \<and> isArray (normalizePNodeContent pNode ! left))"
    using lp by simp
  have ch': "chooseUpdate leftY (normalizePNodeContent pNode ! left) rightY
         (normalizePNodeContent pNode ! (length (normalizePNodeContent pNode) - right - 1)) (fst st)
       = (True, False)"
    using ch lp rp by simp
  show ?thesis using ch updateChildren_left[OF G fl fr ntx ch' lp] by simp
qed

lemma exDocAligned_children:
  "normalizePNodeContent exDocAligned =
     [PNodeC (PElement ''paragraph'' [(''align'', JStr ''left'')] [] []),
      PNodeC (PElement ''paragraph'' [(''align'', JStr ''right'')] [] [])]"
  by (simp add: exDocAligned_def normalizePNodeContent_def)

lemma factor_empty:
  "computeChildEqualityFactor (XmlElement r it name a []) (PElement name' a' [] ms) m =
     \<lparr> equalityFactor = 0, foundMappedChild = False \<rparr>"
  by (simp add: computeChildEqualityFactor_def toArray_def visible_def normalizePNodeContent_def
      factorLeft.simps factorRight.simps)

theorem updateChildren_tie_updates_left_witness:
  "chooseUpdate (exTwoParagraphs ! 0) (normalizePNodeContent exDocAligned ! 0)
     (exTwoParagraphs ! 1) (normalizePNodeContent exDocAligned ! 1) (fst exState) = (True, False) \<and>
   updateChildren exEnv [1, 2] exDocAligned 0 0 exTwoParagraphs exState =
     (case updateYFragment exEnv (exTwoParagraphs ! 0)
             (PElement ''paragraph'' [(''align'', JStr ''left'')] [] []) exState of
        (Some err, y', st') \<Rightarrow> (Some err, 0, 0, replaceRef exTwoParagraphs y', st')
      | (None, y', st') \<Rightarrow>
          updateChildren exEnv [1, 2] exDocAligned (0 + 1) 0 (replaceRef exTwoParagraphs y') st')"
proof -
  have G: "length [1::nat, 2] - 0 - 0 > 0 \<and> length (normalizePNodeContent exDocAligned) - 0 - 0 > 0"
    by (simp add: exDocAligned_children)
  have fl: "findRef exTwoParagraphs ([1, 2] ! 0) = Some (exTwoParagraphs ! 0)"
    by (simp add: findRef_def exTwoParagraphs_def)
  have fr: "findRef exTwoParagraphs ([1, 2] ! (length [1::nat, 2] - 0 - 1)) = Some (exTwoParagraphs ! 1)"
    by (simp add: findRef_def exTwoParagraphs_def)
  have lp: "normalizePNodeContent exDocAligned ! 0 =
              PNodeC (PElement ''paragraph'' [(''align'', JStr ''left'')] [] [])"
    by (simp add: exDocAligned_children)
  have rp: "normalizePNodeContent exDocAligned ! (length (normalizePNodeContent exDocAligned) - 0 - 1) =
              PNodeC (PElement ''paragraph'' [(''align'', JStr ''right'')] [] [])"
    by (simp add: exDocAligned_children)
  have ml: "isXmlElement (exTwoParagraphs ! 0) \<and>
            matchNodeName (exTwoParagraphs ! 0) (PNodeC (PElement ''paragraph'' [(''align'', JStr ''left'')] [] []))"
    by (simp add: exTwoParagraphs_def)
  have mr: "isXmlElement (exTwoParagraphs ! 1) \<and>
            matchNodeName (exTwoParagraphs ! 1) (PNodeC (PElement ''paragraph'' [(''align'', JStr ''right'')] [] []))"
    by (simp add: exTwoParagraphs_def)
  have found: "foundMappedChild (computeChildEqualityFactor (exTwoParagraphs ! 0)
                  (PElement ''paragraph'' [(''align'', JStr ''left'')] [] []) (fst exState)) =
                foundMappedChild (computeChildEqualityFactor (exTwoParagraphs ! 1)
                  (PElement ''paragraph'' [(''align'', JStr ''right'')] [] []) (fst exState))"
    by (simp add: exTwoParagraphs_def factor_empty)
  have factor: "equalityFactor (computeChildEqualityFactor (exTwoParagraphs ! 0)
                  (PElement ''paragraph'' [(''align'', JStr ''left'')] [] []) (fst exState)) =
                equalityFactor (computeChildEqualityFactor (exTwoParagraphs ! 1)
                  (PElement ''paragraph'' [(''align'', JStr ''right'')] [] []) (fst exState))"
    by (simp add: exTwoParagraphs_def factor_empty)
  show ?thesis
    using updateChildren_tie_updates_left [OF G fl fr lp rp ml mr found factor, of exEnv]
    by (simp add: exDocAligned_children)
qed

lemma updateYFragment_leaf:
  "updateYFragment e (XmlElement r it name a []) (PElement name a' [] []) st =
     (None, XmlElement r it name (updateAttributes a (PElement name a' [] [])) [],
      mappingSet r (PNodeC (PElement name a' [] [])) st)"
  by (subst updateYFragment.simps)
     (simp add: Let_def normalizePNodeContent_def toArray_def visible_def alignLeft.simps
        alignRight.simps updateChildren_stop finishChildren_def)

text \<open>
  Claim C4 as stated fails: for two paragraphs that both differ from their editable
  counterparts in an attribute, the two sides tie, the decision is the left side, and
  the loop ends with the left pointer at two and the right pointer at zero.
\<close>

theorem updateChildren_tie_counterexample:
  "equalityFactor (computeChildEqualityFactor (exTwoParagraphs ! 0)
      (PElement ''paragraph'' [(''align'', JStr ''left'')] [] []) (fst exState)) =
   equalityFactor (computeChildEqualityFactor (exTwoParagraphs ! 1)
      (PElement ''paragraph'' [(''align'', JStr ''right'')] [] []) (fst exState)) \<and>
   foundMappedChild (computeChildEqualityFactor (exTwoParagraphs ! 0)
      (PElement ''paragraph'' [(''align'', JStr ''left'')] [] []) (fst exState)) =
   foundMappedChild (computeChildEqualityFactor (exTwoParagraphs ! 1)
      (PElement ''paragraph'' [(''align'', JStr ''right'')] [] []) (fst exState)) \<and>
   chooseUpdate (exTwoParagraphs ! 0) (normalizePNodeContent exDocAligned ! 0)
     (exTwoParagraphs ! 1) (normalizePNodeContent exDocAligned ! 1) (fst exState) = (True, False) \<and>
   fst (snd (updateChildren exEnv [1, 2] exDocAligned 0 0 exTwoParagraphs exState)) = 2 \<and>
   fst (snd (snd (updateChildren exEnv [1, 2] exDocAligned 0 0 exTwoParagraphs exState))) = 0"
  apply (simp add: exTwoParagraphs_def factor_empty exDocAligned_children chooseUpdate_def)
  apply (subst updateChildren.simps)
  apply (simp add: exDocAligned_children findRef_def Let_def chooseUpdate_def factor_empty
      updateYFragment_leaf replaceRef_def)
  apply (subst updateChildren.simps)
  apply (simp add: exDocAligned_children findRef_def Let_def chooseUpdate_def factor_empty
      updateYFragment_leaf replaceRef_def)
  apply (simp add: updateChildren_stop exDocAligned_children)
  apply (subst updateChildren.simps)
  apply (simp add: exDocAligned_children findRef_def Let_def chooseUpdate_def factor_empty
      updateYFragment_leaf replaceRef_def)
  apply (subst updateChildren.simps)
  apply (simp add: exDocAligned_children findRef_def Let_def chooseUpdate_def factor_empty
      updateYFragment_leaf replaceRef_def)
  apply (simp add: updateChildren_stop exDocAligned_children)
  done

section \<open>Properties of the reverse synchronizer\<close>

lemma yDeleted_deleteType: "isXmlElement el \<Longrightarrow> yDeleted (deleteType el)"
  by (cases el) auto

lemma kind_setItems [simp]: "isXmlElement (setItems el items) = isXmlElement el"
  by (cases el) auto

lemma yref_setItems [simp]: "yref (setItems el items) = yref el"
  by (cases el) auto

lemma yref_deleteType [simp]: "yref (deleteType el) = yref el"
  by (cases el) auto

text \<open>
  Claim C6. Let the children of an element have been built without an error, and let
  the construction of the node fail (the \<open>try\<close> block throws: \<open>schema.node\<close> or
  \<open>schema.mark\<close> rejects what it is given). Then \<open>createNodeFromYElement\<close> returns
  \<open>null\<close> and no error; the element it leaves behind is deleted and has the same
  identity; and the mapping table has no entry for it.
\<close>

theorem createNodeFromYElement_self_healing:
  assumes el: "isXmlElement el"
    and children: "createChildren e sch (map (\<lambda>c. (\<not> yDeleted c, c)) (yItems el)) st =
                     (None, children, items, st1)"
    and fails: "buildNode sch (setItems el items) children = None"
  shows "createNodeFromYElement e sch el st =
           (None, None, deleteType (setItems el items), mappingDelete (yref el) st1) \<and>
         yDeleted (deleteType (setItems el items)) \<and>
         yref (deleteType (setItems el items)) = yref el \<and>
         mapping (fst (mappingDelete (yref el) st1)) (yref el) = None"
  using el children fails
  by (subst createNodeFromYElement.simps)
     (simp add: yDeleted_deleteType mappingDelete_def)

theorem createNodeFromYElement_self_healing_witness:
  "buildNode exSchema exEmptyDoc [] = None \<and>
   fst (createNodeFromYElement exEnv exSchema exEmptyDoc exState) = None \<and>
   fst (snd (createNodeFromYElement exEnv exSchema exEmptyDoc exState)) = None \<and>
   yDeleted (fst (snd (snd (createNodeFromYElement exEnv exSchema exEmptyDoc exState)))) \<and>
   mapping (fst (snd (snd (snd (createNodeFromYElement exEnv exSchema exEmptyDoc exState))))) 1 = None"
proof -
  have el: "isXmlElement exEmptyDoc" by (simp add: exEmptyDoc_def)
  have children: "createChildren exEnv exSchema (map (\<lambda>c. (\<not> yDeleted c, c)) (yItems exEmptyDoc)) exState =
                     (None, [], [], exState)"
    by (simp add: exEmptyDoc_def createChildren.simps)
  have same: "setItems exEmptyDoc [] = exEmptyDoc" by (simp add: exEmptyDoc_def)
  have fails: "buildNode exSchema (setItems exEmptyDoc []) [] = None"
    by (simp add: exEmptyDoc_def buildNode_def exSchema_def)
  show ?thesis
    using createNodeFromYElement_self_healing [OF el children fails] fails same
    by (simp add: exEmptyDoc_def)
qed

text \<open>
  Claim C7, as amended. While the children are built, let a visited text run be not
  deleted, and let its right neighbour be a text run that is not deleted and was created
  by the local replica (the client of its item is the document's client id). Then the
  content of the neighbour is appended to the run, the neighbour is deleted, and the
  text nodes of the run are created from the merged content; the loop goes on with the
  deleted neighbour.
\<close>

theorem createChildren_merges_follower:
  assumes leader: "\<not> item_deleted it"
    and follower: "\<not> item_deleted it2 \<and> item_client it2 = clientID e"
  shows "createChildren e sch ((True, XmlText r it cs) # (v, XmlText r2 it2 cs2) # rest) st =
     (let merged = XmlText r it (cs @ spread (toDelta (XmlText r2 it2 cs2)));
          (ns, leader') = createTextNodesFromYText sch merged
      in case createChildren e sch ((v, deleteType (XmlText r2 it2 cs2)) # rest) st of
           (err, children, items, st1) \<Rightarrow>
             (err, (case ns of Some nodes \<Rightarrow> nodes | None \<Rightarrow> []) @ children,
              leader' # items, st1))"
  using leader follower
  by (subst createChildren.simps)
     (simp add: mergeFollower_def ytextAppend_def Let_def)


lemma textNodes_plain:
  "textNodes exSchema [([c], [])] = Some [PText [c] []]"
  by (simp add: exSchema_def)

theorem createChildren_merges_follower_witness:
  "createChildren exEnv exSchema
     [(True, XmlText 2 (liveItem 1 2) [(CHR ''a'', [])]), (True, XmlText 3 (liveItem 1 3) [(CHR ''b'', [])])]
     exState =
   (None, [PText ''ab'' []],
    [XmlText 2 (liveItem 1 2) [(CHR ''a'', []), (CHR ''b'', [])],
     deleteType (XmlText 3 (liveItem 1 3) [(CHR ''b'', [])])], exState)"
proof -
  have l: "\<not> item_deleted (liveItem 1 2)" by (simp add: liveItem_def)
  have f: "\<not> item_deleted (liveItem 1 3) \<and> item_client (liveItem 1 3) = clientID exEnv"
    by (simp add: liveItem_def exEnv_def)
  show ?thesis
    using createChildren_merges_follower [OF l f, of exSchema 2 "[(CHR ''a'', [])]" True 3
        "[(CHR ''b'', [])]" "[]" exState]
    by (simp add: createChildren.simps mergeFollower_def createTextNodesFromYText_def spread_def
        sameTextAttrs_def exSchema_def liveItem_def)
qed

text \<open>
  Claim C7 as stated fails. Three adjacent runs that one other replica created are not
  merged: each keeps its content and yields its own text node. Three adjacent runs of
  the local replica: the second is merged into the first and deleted; it is still
  visited, as a deleted run, and its neighbour, the third, is deleted while its content
  reaches no run.
\<close>

theorem createChildren_merge_counterexample:
  "createChildren exEnv exSchema (map (\<lambda>c. (\<not> yDeleted c, c)) (yItems (exRuns 5))) exState =
     (None, [PText ''a'' [], PText ''b'' [], PText ''c'' []], yItems (exRuns 5), exState) \<and>
   createChildren exEnv exSchema (map (\<lambda>c. (\<not> yDeleted c, c)) (yItems (exRuns 1))) exState =
     (None, [PText ''ab'' []],
      [XmlText 2 (liveItem 1 2) [(CHR ''a'', []), (CHR ''b'', [])],
       deleteType (XmlText 3 (liveItem 1 3) [(CHR ''b'', [])]),
       deleteType (XmlText 4 (liveItem 1 4) [(CHR ''c'', [])])], exState)"
  apply (rule conjI)
   apply (simp add: exRuns_def liveItem_def exEnv_def)
   apply (subst createChildren.simps, simp add: mergeFollower_def liveItem_def exEnv_def
      createTextNodesFromYText_def exSchema_def)+
   apply (simp add: createChildren.simps)
  apply (simp add: exRuns_def liveItem_def exEnv_def)
  apply (subst createChildren.simps, simp add: mergeFollower_def liveItem_def exEnv_def
      createTextNodesFromYText_def exSchema_def ytextAppend_def spread_def sameTextAttrs_def)+
  done

section \<open>The round trip\<close>

lemma objSet_fresh: "k \<notin> fst ` set a \<Longrightarrow> objSet a k v = a @ [(k, v)]"
  by (induction a) auto

lemma foldl_objSet_fresh:
  "distinct (map fst kvs) \<Longrightarrow> fst ` set kvs \<inter> fst ` set a = {} \<Longrightarrow>
   foldl (\<lambda>acc (k, v). objSet acc k v) a kvs = a @ kvs"
proof (induction kvs arbitrary: a)
  case Nil
  then show ?case by simp
next
  case (Cons kv kvs)
  obtain k v where kv: "kv = (k, v)" by (cases kv)
  have fresh: "k \<notin> fst ` set a" using Cons.prems kv by auto
  have "fst ` set kvs \<inter> fst ` set (a @ [(k, v)]) = {}"
    using Cons.prems kv by auto
  then have "foldl (\<lambda>acc (k, v). objSet acc k v) (a @ [(k, v)]) kvs = (a @ [(k, v)]) @ kvs"
    using Cons.IH Cons.prems(1) by simp
  then show ?case using kv fresh by (simp add: objSet_fresh)
qed

lemma map_of_distinct: "distinct (map fst a) \<Longrightarrow> (k, v) \<in> set a \<Longrightarrow> map_of a k = Some v"
  by simp

lemma hashForm_suffix: "hashForm e \<Longrightarrow> isHashSuffix (''--'' @ hashOfJSON e v)"
  by (simp add: hashForm_def isHashSuffix_def)

lemma decode_markKey:
  assumes "hashForm e" "plainName (mark_name mk)"
  shows "yattr2markname (markKey e d mk) = mark_name mk"
proof (cases "d (mark_name mk)")
  case True
  have "regexExec (mark_name mk @ (''--'' @ hashOfJSON e (markToJSON mk))) =
          Some (afterLastLineTerminator (mark_name mk))"
    using hashForm_suffix[OF assms(1)] by (rule regexExec_append)
  moreover have "afterLastLineTerminator (mark_name mk) = mark_name mk"
    using assms(2) by (simp add: plainName_def afterLast_clean)
  ultimately show ?thesis using True by (simp add: yattr2markname_def markKey_def)
next
  case False
  have "regexExec (mark_name mk) = None"
    using assms(2) by (simp add: plainName_def regexExec_no)
  then show ?thesis using False by (simp add: yattr2markname_def markKey_def)
qed

lemma markKey_inj:
  assumes "hashForm e" "plainName (mark_name m1)" "plainName (mark_name m2)"
    and "markKey e d m1 = markKey e d m2"
  shows "mark_name m1 = mark_name m2"
  using decode_markKey[OF assms(1,2), of d] decode_markKey[OF assms(1,3), of d] assms(4) by simp

lemma textMarksOk_keys:
  assumes "hashForm e" "textMarksOk sch ms"
  shows "distinct (map fst (textAttrsOf e d ms))"
proof -
  have "map fst (textAttrsOf e d ms) = map (markKey e d) ms"
    by (simp add: textAttrsOf_def comp_def)
  moreover have "inj_on (markKey e d) (set ms)"
  proof (rule inj_onI)
    fix x y assume x: "x \<in> set ms" and y: "y \<in> set ms" and k: "markKey e d x = markKey e d y"
    have px: "plainName (mark_name x)" and py: "plainName (mark_name y)"
      using assms(2) x y by (auto simp: textMarksOk_def list_all_iff)
    have "mark_name x = mark_name y" using markKey_inj[OF assms(1) px py k] .
    moreover have "inj_on mark_name (set ms)"
      using assms(2) by (simp add: textMarksOk_def distinct_map)
    ultimately show "x = y" using x y by (auto dest: inj_onD)
  qed
  moreover have "distinct ms" using assms(2) by (simp add: textMarksOk_def distinct_map)
  ultimately show ?thesis by (simp add: distinct_map)
qed

lemma marksToAttributes_step: "marksToAttributes e marks m = foldl (markStep e) ([], m) marks"
  by (simp add: marksToAttributes_def markStep_def)

lemma markStep_decide:
  assumes "mark_name mk \<noteq> ''ychange''"
  shows "fst (markStep e (pattrs, m) mk) = objSet pattrs (markKey e (decide e m) mk) (mark_attrs mk) \<and>
         decide e (snd (markStep e (pattrs, m) mk)) = decide e m \<and>
         mapping (snd (markStep e (pattrs, m) mk)) = mapping m"
proof (cases "isOMark m (mark_name mk)")
  case None
  then show ?thesis using assms
    by (auto simp: markStep_def markKey_def decide_def fun_eq_iff)
next
  case (Some b)
  then show ?thesis using assms
    by (auto simp: markStep_def markKey_def decide_def)
qed

lemma foldl_markStep:
  assumes "list_all (\<lambda>mk. mark_name mk \<noteq> ''ychange'') ms"
  shows "fst (foldl (markStep e) (acc, m) ms) =
           foldl (\<lambda>a mk. objSet a (markKey e (decide e m) mk) (mark_attrs mk)) acc ms \<and>
         decide e (snd (foldl (markStep e) (acc, m) ms)) = decide e m \<and>
         mapping (snd (foldl (markStep e) (acc, m) ms)) = mapping m"
  using assms
proof (induction ms arbitrary: acc m)
  case Nil
  then show ?case by simp
next
  case (Cons mk ms)
  obtain acc' m' where s: "markStep e (acc, m) mk = (acc', m')" by (cases "markStep e (acc, m) mk")
  have n: "mark_name mk \<noteq> ''ychange''" using Cons.prems by simp
  have a: "acc' = objSet acc (markKey e (decide e m) mk) (mark_attrs mk)"
    and d: "decide e m' = decide e m" and mp: "mapping m' = mapping m"
    using markStep_decide[OF n, of e acc m] s by auto
  have rest: "list_all (\<lambda>mk. mark_name mk \<noteq> ''ychange'') ms" using Cons.prems by simp
  show ?case using Cons.IH[OF rest, of acc' m'] s a d mp by simp
qed

lemma marksToAttributes_pure:
  assumes h: "hashForm e" and ok: "textMarksOk sch ms"
  shows "fst (marksToAttributes e ms m) = textAttrsOf e (decide e m) ms \<and>
         decide e (snd (marksToAttributes e ms m)) = decide e m \<and>
         mapping (snd (marksToAttributes e ms m)) = mapping m"
proof -
  have ny: "list_all (\<lambda>mk. mark_name mk \<noteq> ''ychange'') ms"
    using ok by (auto simp: textMarksOk_def plainName_def list_all_iff)
  have dk: "distinct (map fst (textAttrsOf e (decide e m) ms))" using textMarksOk_keys[OF h ok] .
  have "foldl (\<lambda>a mk. objSet a (markKey e (decide e m) mk) (mark_attrs mk)) [] ms =
        foldl (\<lambda>acc (k, v). objSet acc k v) [] (textAttrsOf e (decide e m) ms)"
    by (simp add: textAttrsOf_def foldl_map)
  also have "\<dots> = [] @ textAttrsOf e (decide e m) ms"
    using dk by (intro foldl_objSet_fresh) auto
  finally show ?thesis using foldl_markStep[OF ny, of e "[]" m]
    by (simp add: marksToAttributes_step)
qed

lemma textRun_Cons: "textRun sch (n # ns) \<Longrightarrow> textRun sch ns"
  by (cases ns) (auto simp: textRun_def)

lemma textRun_head:
  "textRun sch (n # ns) \<Longrightarrow> pTextOf n \<noteq> [] \<and> textMarksOk sch (pMarks n) \<and>
     schema_text sch (pTextOf n) (pMarks n) = Some n"
  by (cases n) (auto simp: textRun_def)

lemma textDelta_acc:
  assumes h: "hashForm e" and run: "list_all (\<lambda>n. textMarksOk sch (pMarks n)) ns"
  shows "fst (foldl (\<lambda>(delta, m) node.
              let (a, m') = marksToAttributes e (pMarks node) m
              in (delta @ [(pTextOf node, a)], m')) (acc, m) ns) = acc @ deltaOf e (decide e m) ns \<and>
         decide e (snd (foldl (\<lambda>(delta, m) node.
              let (a, m') = marksToAttributes e (pMarks node) m
              in (delta @ [(pTextOf node, a)], m')) (acc, m) ns)) = decide e m \<and>
         mapping (snd (foldl (\<lambda>(delta, m) node.
              let (a, m') = marksToAttributes e (pMarks node) m
              in (delta @ [(pTextOf node, a)], m')) (acc, m) ns)) = mapping m"
  using run
proof (induction ns arbitrary: acc m)
  case Nil
  then show ?case by (simp add: deltaOf_def)
next
  case (Cons n ns)
  have ok: "textMarksOk sch (pMarks n)" using Cons.prems by simp
  obtain a m' where r: "marksToAttributes e (pMarks n) m = (a, m')"
    by (cases "marksToAttributes e (pMarks n) m")
  have a: "a = textAttrsOf e (decide e m) (pMarks n)" and d: "decide e m' = decide e m"
    and mp: "mapping m' = mapping m"
    using marksToAttributes_pure[OF h ok, of m] r by auto
  have rest: "list_all (\<lambda>n. textMarksOk sch (pMarks n)) ns" using Cons.prems by simp
  show ?case using Cons.IH[OF rest, of "acc @ [(pTextOf n, a)]" m'] r a d mp
    by (simp add: deltaOf_def)
qed

lemma textRun_marks: "textRun sch ns \<Longrightarrow> list_all (\<lambda>n. textMarksOk sch (pMarks n)) ns"
proof (induction ns)
  case Nil
  then show ?case by simp
next
  case (Cons n ns)
  then show ?case using textRun_head[OF Cons.prems] textRun_Cons[OF Cons.prems] by simp
qed

lemma textDelta_pure:
  assumes h: "hashForm e" and run: "textRun sch ns"
  shows "fst (textDelta e ns m) = deltaOf e (decide e m) ns \<and>
         decide e (snd (textDelta e ns m)) = decide e m \<and>
         mapping (snd (textDelta e ns m)) = mapping m"
  using textDelta_acc[OF h textRun_marks[OF run], of "[]" m] by (simp add: textDelta_def)

lemma sameTextAttrs_refl: "distinct (map fst a) \<Longrightarrow> sameTextAttrs a a"
  by (auto simp: sameTextAttrs_def list_all_iff)

lemma mark_eq: "mark_name (m1::mark) = mark_name m2 \<Longrightarrow> mark_attrs m1 = mark_attrs m2 \<Longrightarrow> m1 = m2"
  by simp

lemma sameTextAttrs_marks:
  assumes h: "hashForm e" and ok1: "textMarksOk sch ms1" and ok2: "textMarksOk sch ms2"
    and same: "sameTextAttrs (textAttrsOf e d ms1) (textAttrsOf e d ms2)"
  shows "set ms1 = set ms2"
proof -
  have len: "length ms1 = length ms2" using same by (simp add: sameTextAttrs_def textAttrsOf_def)
  have sub: "set ms1 \<subseteq> set ms2"
  proof
    fix m1 assume m1: "m1 \<in> set ms1"
    then have "(markKey e d m1, mark_attrs m1) \<in> set (textAttrsOf e d ms1)"
      by (auto simp: textAttrsOf_def)
    then have "map_of (textAttrsOf e d ms2) (markKey e d m1) = Some (mark_attrs m1)"
      using same by (auto simp: sameTextAttrs_def list_all_iff)
    then have "(markKey e d m1, mark_attrs m1) \<in> set (textAttrsOf e d ms2)"
      by (rule map_of_SomeD)
    then obtain m2 where m2: "m2 \<in> set ms2" "markKey e d m2 = markKey e d m1"
      "mark_attrs m2 = mark_attrs m1"
      by (auto simp: textAttrsOf_def)
    have p1: "plainName (mark_name m1)" using ok1 m1 by (auto simp: textMarksOk_def list_all_iff)
    have p2: "plainName (mark_name m2)" using ok2 m2(1) by (auto simp: textMarksOk_def list_all_iff)
    have "mark_name m2 = mark_name m1" using markKey_inj[OF h p2 p1 m2(2)] .
    then have "m2 = m1" using m2(3) by (rule mark_eq)
    then show "m1 \<in> set ms2" using m2(1) by simp
  qed
  have d1: "distinct ms1" using ok1 by (simp add: textMarksOk_def distinct_map)
  have d2: "distinct ms2" using ok2 by (simp add: textMarksOk_def distinct_map)
  have "card (set ms1) = card (set ms2)" using len d1 d2 by (simp add: distinct_card)
  then show ?thesis using sub by (simp add: card_subset_eq)
qed

lemma groupChars_segment:
  "s \<noteq> [] \<Longrightarrow> sameTextAttrs a a \<Longrightarrow>
   (case groupChars cs of [] \<Rightarrow> True | (s', a') # _ \<Rightarrow> \<not> sameTextAttrs a a') \<Longrightarrow>
   groupChars (map (\<lambda>c. (c, a)) s @ cs) = (s, a) # groupChars cs"
proof (induction s)
  case Nil
  then show ?case by simp
next
  case (Cons c s)
  show ?case
  proof (cases "s = []")
    case True
    then show ?thesis using Cons.prems by (auto split: list.splits)
  next
    case False
    then show ?thesis using Cons by simp
  qed
qed

lemma groupChars_run:
  assumes h: "hashForm e" and run: "textRun sch ns"
  shows "groupChars (spread (deltaOf e d ns)) = deltaOf e d ns"
  using run
proof (induction ns)
  case Nil
  then show ?case by (simp add: deltaOf_def spread_def)
next
  case (Cons n ns)
  have hd: "pTextOf n \<noteq> []" "textMarksOk sch (pMarks n)" using textRun_head[OF Cons.prems] by auto
  have tl: "textRun sch ns" using textRun_Cons[OF Cons.prems] .
  have IH: "groupChars (spread (deltaOf e d ns)) = deltaOf e d ns" using Cons.IH[OF tl] .
  have refl: "sameTextAttrs (textAttrsOf e d (pMarks n)) (textAttrsOf e d (pMarks n))"
    using textMarksOk_keys[OF h hd(2)] by (rule sameTextAttrs_refl)
  have next_differs: "case groupChars (spread (deltaOf e d ns)) of [] \<Rightarrow> True
        | (s', a') # _ \<Rightarrow> \<not> sameTextAttrs (textAttrsOf e d (pMarks n)) a'"
  proof (cases ns)
    case Nil
    then show ?thesis by (simp add: deltaOf_def spread_def)
  next
    case (Cons n' ns')
    have ok': "textMarksOk sch (pMarks n')" using textRun_head[OF tl[unfolded Cons]] by simp
    have "isText n \<and> isText n'" using Cons.prems Cons by (simp add: textRun_def)
    then have "set (pMarks n) \<noteq> set (pMarks n')" using Cons.prems Cons by (simp add: textRun_def)
    then have "\<not> sameTextAttrs (textAttrsOf e d (pMarks n)) (textAttrsOf e d (pMarks n'))"
      using sameTextAttrs_marks[OF h hd(2) ok'] by blast
    then show ?thesis using IH Cons by (simp add: deltaOf_def)
  qed
  have "spread (deltaOf e d (n # ns)) =
          map (\<lambda>c. (c, textAttrsOf e d (pMarks n))) (pTextOf n) @ spread (deltaOf e d ns)"
    by (simp add: deltaOf_def spread_def)
  then show ?case using groupChars_segment[OF hd(1) refl next_differs] IH
    by (simp add: deltaOf_def)
qed

lemma textMarksOk_Cons: "textMarksOk sch (m # ms) \<Longrightarrow> textMarksOk sch ms"
  by (simp add: textMarksOk_def)

lemma attributesToMarks_created:
  assumes h: "hashForm e"
  shows "list_all (\<lambda>m. plainName (mark_name m) \<and>
                    schema_mark sch (mark_name m) (Some (JObj (mark_attrs m))) = Some m) ms \<Longrightarrow>
         attributesToMarks sch (textAttrsOf e d ms) = Some ms"
proof (induction ms)
  case Nil
  then show ?case by (simp add: textAttrsOf_def)
next
  case (Cons m ms)
  have p: "plainName (mark_name m)" using Cons.prems by simp
  have "yattr2markname (markKey e d m) = mark_name m" using decode_markKey[OF h p] .
  then show ?case using Cons by (simp add: textAttrsOf_def)
qed

lemma textNodes_created:
  assumes h: "hashForm e" and run: "textRun sch ns"
  shows "textNodes sch (deltaOf e d ns) = Some ns"
  using run
proof (induction ns)
  case Nil
  then show ?case by (simp add: deltaOf_def)
next
  case (Cons n ns)
  have hd: "textMarksOk sch (pMarks n)" "schema_text sch (pTextOf n) (pMarks n) = Some n"
    using textRun_head[OF Cons.prems] by auto
  have "attributesToMarks sch (textAttrsOf e d (pMarks n)) = Some (pMarks n)"
    using hd(1) by (intro attributesToMarks_created[OF h]) (auto simp: textMarksOk_def list_all_iff)
  then show ?case using Cons.IH[OF textRun_Cons[OF Cons.prems]] hd(2)
    by (simp add: deltaOf_def)
qed

lemma equalAttrs_refl: "plainAttrs a \<Longrightarrow> equalAttrs a (Some a)"
proof -
  assume p: "plainAttrs a"
  have cnt: "filter (\<lambda>(key, r). r \<noteq> JNull \<and> \<not> startsWith key MarkPrefix) a =
             filter (\<lambda>(key, l). l \<noteq> JNull) a"
    using p by (intro filter_cong) (auto simp: plainAttrs_def list_all_iff)
  have each: "\<And>key l. (key, l) \<in> set a \<Longrightarrow> map_of a key = Some l"
    using p by (simp add: plainAttrs_def)
  show ?thesis
    by (subst equalAttrs.simps) (auto simp: Let_def cnt list_all_iff each)
qed

lemma find_by_name:
  "distinct (map mark_name ms) \<Longrightarrow> m \<in> set ms \<Longrightarrow> find (\<lambda>x. mark_name x = mark_name m) ms = Some m"
  by (induction ms) (auto simp: rev_image_eqI)

lemma equalYTextPText_created:
  assumes h: "hashForm e" and run: "textRun sch ns"
  shows "equalYTextPText (XmlText r it (spread (deltaOf e d ns))) ns"
proof -
  have td: "toDelta (XmlText r it (spread (deltaOf e d ns))) = deltaOf e d ns"
    using groupChars_run[OF h run] by simp
  have each: "\<And>n. n \<in> set ns \<Longrightarrow>
        list_all (\<lambda>(yattrname, attr).
                  let markname = yattr2markname yattrname in
                    equalAttrs attr
                      (map_option mark_attrs (find (\<lambda>m. mark_name m = markname) (pMarks n))))
               (textAttrsOf e d (pMarks n))"
  proof -
    fix n assume "n \<in> set ns"
    then have ok: "textMarksOk sch (pMarks n)" using textRun_marks[OF run] by (simp add: list_all_iff)
    show "list_all (\<lambda>(yattrname, attr).
                  let markname = yattr2markname yattrname in
                    equalAttrs attr
                      (map_option mark_attrs (find (\<lambda>m. mark_name m = markname) (pMarks n))))
               (textAttrsOf e d (pMarks n))"
      unfolding list_all_iff textAttrsOf_def
    proof (clarsimp simp: Let_def)
      fix m assume m: "m \<in> set (pMarks n)"
      have p: "plainName (mark_name m)" "plainAttrs (mark_attrs m)"
        using ok m by (auto simp: textMarksOk_def list_all_iff)
      have f: "find (\<lambda>x. mark_name x = mark_name m) (pMarks n) = Some m"
        using ok m by (intro find_by_name) (auto simp: textMarksOk_def)
      show "equalAttrs (mark_attrs m)
              (map_option mark_attrs
                (find (\<lambda>ma. mark_name ma = yattr2markname (markKey e d m)) (pMarks n)))"
        using decode_markKey[OF h p(1), of d] f equalAttrs_refl[OF p(2)] by simp
    qed
  qed
  have z: "zip (deltaOf e d ns) ns = map (\<lambda>n. ((pTextOf n, textAttrsOf e d (pMarks n)), n)) ns"
    by (induction ns) (auto simp: deltaOf_def)
  have len: "length (deltaOf e d ns) = length ns" by (simp add: deltaOf_def)
  show ?thesis
    unfolding equalYTextPText_def td z Let_def
    using each by (simp add: len list_all_iff textAttrsOf_def Let_def)
qed

lemma startsWith_prefix [simp]: "startsWith (MarkPrefix @ n) MarkPrefix"
  by (simp add: startsWith_def)

lemma markEntries_keys: "(k, v) \<in> set (markEntries ms) \<Longrightarrow> startsWith k MarkPrefix"
  by (auto simp: markEntries_def)

lemma notNull_keys: "plainAttrs a \<Longrightarrow> (k, v) \<in> set (notNull a) \<Longrightarrow> \<not> startsWith k MarkPrefix"
  by (auto simp: plainAttrs_def notNull_def list_all_iff)

lemma notNull_distinct: "plainAttrs a \<Longrightarrow> distinct (map fst (notNull a))"
  by (simp add: plainAttrs_def notNull_def distinct_map_filter)

lemma markEntries_distinct: "distinct (map mark_name ms) \<Longrightarrow> distinct (map fst (markEntries ms))"
proof -
  assume d: "distinct (map mark_name ms)"
  have "map fst (markEntries ms) = map ((@) MarkPrefix) (map mark_name ms)"
    by (simp add: markEntries_def comp_def)
  then show ?thesis using d by (simp add: distinct_map inj_on_def)
qed

lemma copy_attrs_acc:
  assumes "distinct (map fst a)" "fst ` set a \<inter> fst ` set acc = {}"
    and "\<And>v. (''ychange'', v) \<in> set a \<Longrightarrow> v = JNull"
  shows "foldl (\<lambda>acc (key, val). if val \<noteq> JNull \<and> key \<noteq> ''ychange'' then objSet acc key val else acc)
           acc a = acc @ notNull a"
  using assms
proof (induction a arbitrary: acc)
  case Nil
  then show ?case by (simp add: notNull_def)
next
  case (Cons kv a)
  obtain k v where kv: "kv = (k, v)" by (cases kv)
  have d: "distinct (map fst a)" using Cons.prems(1) by simp
  have y: "\<And>v. (''ychange'', v) \<in> set a \<Longrightarrow> v = JNull" using Cons.prems(3) by simp
  show ?case
  proof (cases "v \<noteq> JNull")
    case True
    then have ky: "k \<noteq> ''ychange''" using Cons.prems(3)[of v] kv by auto
    have fresh: "k \<notin> fst ` set acc" using Cons.prems(2) kv by auto
    have disj: "fst ` set a \<inter> fst ` set (acc @ [(k, v)]) = {}"
      using Cons.prems(1,2) kv by auto
    show ?thesis using Cons.IH[OF d disj y] True ky kv fresh
      by (simp add: objSet_fresh notNull_def)
  next
    case False
    have disj: "fst ` set a \<inter> fst ` set acc = {}" using Cons.prems(2) by auto
    show ?thesis using Cons.IH[OF d disj y] False kv by (simp add: notNull_def)
  qed
qed

lemma ychange_null:
  "plainAttrs a \<Longrightarrow> map_of a ''ychange'' \<in> {None, Some JNull} \<Longrightarrow> (''ychange'', v) \<in> set a \<Longrightarrow> v = JNull"
  by (auto simp: plainAttrs_def)

lemma copy_attrs:
  assumes "plainAttrs a" "map_of a ''ychange'' \<in> {None, Some JNull}"
  shows "foldl (\<lambda>acc (key, val). if val \<noteq> JNull \<and> key \<noteq> ''ychange'' then objSet acc key val else acc)
           [] a = notNull a"
  using copy_attrs_acc[of a "[]"] assms ychange_null[OF assms] by (simp add: plainAttrs_def)

lemma nodeMarksToAttributes_acc:
  assumes "distinct (map mark_name ms)" "list_all (\<lambda>m. mark_name m \<noteq> ''ychange'') ms"
    and "fst ` set (markEntries ms) \<inter> fst ` set acc = {}"
  shows "foldl (\<lambda>pattrs m.
              if mark_name m \<noteq> ''ychange''
              then objSet pattrs (MarkPrefix @ mark_name m) (markToJSON m)
              else pattrs) acc ms = acc @ markEntries ms"
  using assms
proof (induction ms arbitrary: acc)
  case Nil
  then show ?case by (simp add: markEntries_def)
next
  case (Cons m ms)
  have fresh: "MarkPrefix @ mark_name m \<notin> fst ` set acc"
    using Cons.prems(3) by (auto simp: markEntries_def)
  have disj: "fst ` set (markEntries ms) \<inter>
              fst ` set (acc @ [(MarkPrefix @ mark_name m, markToJSON m)]) = {}"
    using Cons.prems(1,3) by (auto simp: markEntries_def)
  show ?case using Cons.IH[OF _ _ disj] Cons.prems(1,2) fresh
    by (simp add: objSet_fresh markEntries_def)
qed

lemma nodeMarksToAttributes_entries:
  "nodeMarksOk sch ms \<Longrightarrow> nodeMarksToAttributes ms = markEntries ms"
  using nodeMarksToAttributes_acc[of ms "[]"]
  by (simp add: nodeMarksOk_def nodeMarksToAttributes_def list_all_iff)

lemma element_attrs:
  assumes p: "plainAttrs a" and ok: "nodeMarksOk sch ms"
  shows "foldl (\<lambda>a (key, val). objSet a key val) (notNull a) (markEntries ms) =
           notNull a @ markEntries ms"
proof (rule foldl_objSet_fresh)
  show "distinct (map fst (markEntries ms))"
    using ok by (simp add: nodeMarksOk_def markEntries_distinct)
  show "fst ` set (markEntries ms) \<inter> fst ` set (notNull a) = {}"
    using markEntries_keys notNull_keys[OF p] by fastforce
qed

lemma split_plain:
  assumes "distinct (map fst xs)" "fst ` set xs \<inter> fst ` set na = {}"
    and "\<And>k v. (k, v) \<in> set xs \<Longrightarrow> \<not> startsWith k MarkPrefix"
  shows "splitAttributes sch (xs @ ys) na nm = splitAttributes sch ys (na @ xs) nm"
  using assms
proof (induction xs arbitrary: na)
  case Nil
  then show ?case by simp
next
  case (Cons kv xs)
  obtain k v where kv: "kv = (k, v)" by (cases kv)
  have np: "\<not> startsWith k MarkPrefix" using Cons.prems(3) kv by auto
  have fresh: "k \<notin> fst ` set na" using Cons.prems(2) kv by auto
  have disj: "fst ` set xs \<inter> fst ` set (na @ [(k, v)]) = {}"
    using Cons.prems(1,2) kv by auto
  have d: "distinct (map fst xs)" using Cons.prems(1) by simp
  have np3: "\<And>k v. (k, v) \<in> set xs \<Longrightarrow> \<not> startsWith k MarkPrefix"
    using Cons.prems(3) by auto
  show ?case using Cons.IH[OF d disj np3] kv np fresh
    by (simp add: objSet_fresh)
qed

lemma markToJSON_attrs: "markToJSON m = JObj kvs \<Longrightarrow> map_of kvs ''attrs'' = jsonAttrs m"
  by (auto simp: markToJSON_def jsonAttrs_def)

lemma split_marks:
  assumes "list_all (\<lambda>m. schema_mark sch (mark_name m) (jsonAttrs m) = Some m) ms"
  shows "splitAttributes sch (markEntries ms) na nm = Some (na, nm @ ms)"
  using assms
proof (induction ms arbitrary: nm)
  case Nil
  then show ?case by (simp add: markEntries_def)
next
  case (Cons m ms)
  obtain kvs where j: "markToJSON m = JObj kvs" by (simp add: markToJSON_def)
  have a: "map_of kvs ''attrs'' = jsonAttrs m" using j by (rule markToJSON_attrs)
  have dp: "drop (length MarkPrefix) (MarkPrefix @ mark_name m) = mark_name m" by simp
  have rest: "splitAttributes sch (markEntries ms) na (nm @ [m]) = Some (na, (nm @ [m]) @ ms)"
    using Cons.IH[of "nm @ [m]"] Cons.prems by simp
  show ?case using Cons.prems rest
    by (simp add: markEntries_def j a dp del: drop_append)
qed

lemma splitAttributes_created:
  assumes p: "plainAttrs a" and ok: "nodeMarksOk sch ms"
  shows "splitAttributes sch (notNull a @ markEntries ms) [] [] = Some (notNull a, ms)"
proof -
  have "splitAttributes sch (notNull a @ markEntries ms) [] [] =
        splitAttributes sch (markEntries ms) ([] @ notNull a) []"
    using notNull_distinct[OF p] notNull_keys[OF p] by (intro split_plain) auto
  also have "\<dots> = Some ([] @ notNull a, [] @ ms)"
    using ok by (intro split_marks) (simp add: nodeMarksOk_def list_all_iff)
  finally show ?thesis by simp
qed

lemma equalAttrs_created:
  assumes p: "plainAttrs a"
  shows "equalAttrs a (Some (notNull a @ markEntries ms))"
proof -
  have none: "filter (\<lambda>(key, r). r \<noteq> JNull \<and> \<not> startsWith key MarkPrefix) (markEntries ms) = []"
    by (auto simp: filter_empty_conv dest: markEntries_keys)
  have all: "filter (\<lambda>(key, r). r \<noteq> JNull \<and> \<not> startsWith key MarkPrefix) (notNull a) = notNull a"
  proof -
    have nn: "\<And>k v. (k, v) \<in> set (notNull a) \<Longrightarrow> v \<noteq> JNull"
      by (auto simp: notNull_def)
    show ?thesis using notNull_keys[OF p] nn by (auto simp: filter_id_conv)
  qed
  have each: "\<And>key l. (key, l) \<in> set (notNull a) \<Longrightarrow>
                map_of (notNull a @ markEntries ms) key = Some l"
    using notNull_distinct[OF p] by (simp add: map_add_Some_iff)
  show ?thesis
    by (subst equalAttrs.simps)
       (auto simp: Let_def none all notNull_def[symmetric] list_all_iff dest: each)
qed

lemma equalMarks_created:
  assumes p: "plainAttrs a" and ok: "nodeMarksOk sch ms"
  shows "equalMarks ms (notNull a @ markEntries ms)"
proof -
  have none: "filter (\<lambda>(key, r). startsWith key MarkPrefix) (notNull a) = []"
    using notNull_keys[OF p] by (auto simp: filter_empty_conv)
  have all: "filter (\<lambda>(key, r). startsWith key MarkPrefix) (markEntries ms) = markEntries ms"
    by (auto simp: filter_id_conv dest: markEntries_keys)
  have d: "distinct (map fst (markEntries ms))"
    using ok by (simp add: nodeMarksOk_def markEntries_distinct)
  have each: "\<And>key r. (key, r) \<in> set (markEntries ms) \<Longrightarrow> map_of (markEntries ms) key = Some r"
    using d by simp
  show ?thesis
    unfolding equalMarks_def nodeMarksToAttributes_entries[OF ok]
    by (auto simp: Let_def none all list_all_iff equalityDeepOpt_def markEntries_def[symmetric]
        dest: each)
       (simp add: markEntries_def)
qed

lemma adjacentTextsDiffer_tl: "adjacentTextsDiffer (x # c) \<Longrightarrow> adjacentTextsDiffer c"
  by (cases c) simp_all

lemma adjacentTextsDiffer_dropWhile: "adjacentTextsDiffer c \<Longrightarrow> adjacentTextsDiffer (dropWhile P c)"
  by (induction c) (auto dest: adjacentTextsDiffer_tl)

lemma adjacentTextsDiffer_takeWhile: "adjacentTextsDiffer c \<Longrightarrow> adjacentTextsDiffer (takeWhile P c)"
proof (induction c rule: adjacentTextsDiffer.induct)
  case (1 x y c)
  then show ?case by auto
qed simp_all

lemma normalizeContent_head:
  "(case normalizeContent (dropWhile isText c) of [] \<Rightarrow> True | s # _ \<Rightarrow> \<not> isArray s)"
proof (cases "dropWhile isText c")
  case Nil
  then show ?thesis by (simp only: normalizeContent.simps list.case)
next
  case (Cons n r)
  then have "\<not> isText n" using hd_dropWhile[of isText c] by auto
  then show ?thesis using Cons by simp
qed

lemma normalizeContent_slots:
  "list_all (roundTrips sch) c \<Longrightarrow> adjacentTextsDiffer c \<Longrightarrow>
   list_all (slotOk sch) (normalizeContent c) \<and> noAdjacentTexts (normalizeContent c) \<and>
   flatten (normalizeContent c) = c"
proof (induction c rule: normalizeContent.induct)
  case 1
  then show ?case by simp
next
  case (2 n c)
  show ?case
  proof (cases "isText n")
    case True
    have all: "list_all (roundTrips sch) (dropWhile isText c)"
      using 2(3) by (auto simp: list_all_iff dest: set_dropWhileD)
    have adj: "adjacentTextsDiffer (dropWhile isText c)"
      using 2(4) by (auto dest: adjacentTextsDiffer_tl intro: adjacentTextsDiffer_dropWhile)
    note IH = 2(1)[OF True all adj]
    have run: "textRun sch (takeWhile isText (n # c))"
      unfolding textRun_def
      using 2(3) adjacentTextsDiffer_takeWhile[OF 2(4), of isText]
      by (auto simp: list_all_iff dest: set_takeWhileD)
    have hd: "noAdjacentTexts (PTexts (takeWhile isText (n # c)) # normalizeContent (dropWhile isText c))"
      using normalizeContent_head[of c] IH
      by (cases "normalizeContent (dropWhile isText c)") auto
    show ?thesis using True IH run hd by simp
  next
    case False
    have all: "list_all (roundTrips sch) c" using 2(3) by simp
    have adj: "adjacentTextsDiffer c" using 2(4) by (rule adjacentTextsDiffer_tl)
    note IH = 2(2)[OF False all adj]
    have hd: "noAdjacentTexts (PNodeC n # normalizeContent c)"
      using IH by (cases "normalizeContent c") auto
    show ?thesis using False IH hd 2(3) by simp
  qed
qed

lemma normalizePNodeContent_slots:
  assumes "roundTrips sch (PElement name a c ms)"
  shows "list_all (slotOk sch) (normalizePNodeContent (PElement name a c ms))"
    and "noAdjacentTexts (normalizePNodeContent (PElement name a c ms))"
    and "flatten (normalizePNodeContent (PElement name a c ms)) = c"
  using normalizeContent_slots[of sch c] assms by (simp_all add: normalizePNodeContent_def)

lemma createTypeFromTextNodes_created:
  assumes h: "hashForm e" and run: "textRun sch ns"
  shows "\<exists>st'. createTypeFromTextNodes e ns st =
            (PrelimText (nextRef (snd st)) (deltaOf e (decide e (fst st)) ns), st') \<and>
          nextRef (snd st') = Suc (nextRef (snd st))"
proof -
  obtain delta m where td: "textDelta e ns (fst st) = (delta, m)" by (cases "textDelta e ns (fst st)")
  have delta: "delta = deltaOf e (decide e (fst st)) ns"
    using textDelta_pure[OF h run, of "fst st"] td by simp
  show ?thesis
    by (simp add: createTypeFromTextNodes_def newType_def Let_def td delta mappingSet_def)
qed

lemma mergeFollower_none:
  "(case rest of [] \<Rightarrow> True | (v, t) # _ \<Rightarrow> \<not> isXmlText t) \<Longrightarrow> mergeFollower e type rest = (type, rest)"
  by (auto simp: mergeFollower_def split: list.splits)

lemma createTextNodesFromYText_created:
  assumes h: "hashForm e" and run: "textRun sch ns"
  shows "createTextNodesFromYText sch (XmlText r it (spread (deltaOf e d ns))) =
           (Some ns, XmlText r it (spread (deltaOf e d ns)))"
  by (simp add: createTextNodesFromYText_def groupChars_run[OF h run] textNodes_created[OF h run])

lemma createChildren_text:
  assumes h: "hashForm e" and run: "textRun sch ns"
    and nxt: "(case rest of [] \<Rightarrow> True | (v, t) # _ \<Rightarrow> \<not> isXmlText t)"
    and rest: "createChildren e sch rest cst = (None, children, items, cst')"
  shows "createChildren e sch ((True, XmlText r it (spread (deltaOf e d ns))) # rest) cst =
           (None, ns @ children, XmlText r it (spread (deltaOf e d ns)) # items, cst')"
  by (subst createChildren.simps)
     (simp add: mergeFollower_none[OF nxt] createTextNodesFromYText_created[OF h run] rest)

lemma createChildren_element:
  assumes el: "isXmlElement t" and fresh: "mapping (fst cst) (yref t) = None"
    and node: "createNodeFromYElement e sch t cst = (None, Some n, t, cst1)"
    and rest: "createChildren e sch rest cst1 = (None, children, items, cst2)"
  shows "createChildren e sch ((True, t) # rest) cst = (None, n # children, t # items, cst2)"
  by (subst createChildren.simps)
     (simp add: el createNodeIfNotExists.simps fresh node rest)

lemma unmapped_mono: "unmapped lo cst \<Longrightarrow> lo \<le> hi \<Longrightarrow> unmapped hi cst"
  by (simp add: unmapped_def)

lemma unmapped_set: "unmapped hi cst \<Longrightarrow> r < hi \<Longrightarrow> unmapped hi (mappingSet r v cst)"
  by (simp add: unmapped_def mappingSet_def)

lemma unmapped_at: "unmapped lo cst \<Longrightarrow> mapping (fst cst) lo = None"
  by (simp add: unmapped_def)

lemma matches_live: "list_all2 matches ts slots \<Longrightarrow> t \<in> set ts \<Longrightarrow> \<not> yDeleted t"
  by (auto simp: list_all2_conv_all_nth in_set_conv_nth matches_def)

lemma matches_zip:
  "list_all2 matches ts slots \<Longrightarrow>
   list_all (\<lambda>(ychild, pc). equalYTypePNode ychild pc) (zip ts slots)"
  by (auto simp: list_all2_iff list_all_iff matches_def)

lemma element_step:
  assumes h: "hashForm e" and rt: "roundTrips sch (PElement name a c ms)"
    and Q: "typesCreated e sch (normalizePNodeContent (PElement name a c ms)) (snd (newType st))"
  shows "nodeCreated e sch (PElement name a c ms) st"
proof -
  let ?T = "PElement name a c ms"
  let ?r = "nextRef (snd st)"
  let ?a2 = "notNull a @ markEntries ms"
  obtain st1 where ni: "newType st = (?r, st1)" and n1: "nextRef (snd st1) = Suc ?r"
    by (simp add: newType_def)
  obtain cps st2 where ct: "createTypes e (normalizePNodeContent ?T) st1 = (cps, st2)"
    by (cases "createTypes e (normalizePNodeContent ?T) st1")
  have p: "plainAttrs a" and y: "map_of a ''ychange'' \<in> {None, Some JNull}"
    and ok: "nodeMarksOk sch ms"
    and sn: "schema_node sch name (notNull a) c ms = Some ?T"
    using rt by (simp_all add: notNull_def)
  have le: "Suc ?r \<le> nextRef (snd st2)"
    and each: "\<And>d. case integrateAll e cps d of
                 (ts, d') \<Rightarrow> list_all2 matches ts (normalizePNodeContent ?T) \<and>
                   childrenBack e sch (normalizePNodeContent ?T) ts (Suc ?r) (nextRef (snd st2))"
    using Q by (simp_all add: typesCreated_def ni ct n1)
  have cr: "createTypeFromElementNode e ?T st = (PrelimElement ?r name ?a2 cps, mappingSet ?r (PNodeC ?T) st2)"
    by (subst createTypeFromElementNode.simps)
       (simp add: ni ct copy_attrs[OF p y] nodeMarksToAttributes_entries[OF ok]
          element_attrs[OF p ok])
  have int: "case integrate e (PrelimElement ?r name ?a2 cps) d of
               (Y, d') \<Rightarrow>
                 isXmlElement Y \<and> yref Y = ?r \<and> \<not> yDeleted Y \<and> equalYTypePNode Y (PNodeC ?T) \<and>
                 buildsBack e sch ?T Y ?r (nextRef (snd st2))" for d
  proof -
    let ?it = "\<lparr> item_client = clientID e, item_clock = nextClock d, item_deleted = False \<rparr>"
    obtain children d1 where
      ia: "integrateAll e cps (d\<lparr> nextClock := Suc (nextClock d) \<rparr>) = (children, d1)"
      by (cases "integrateAll e cps (d\<lparr> nextClock := Suc (nextClock d) \<rparr>)")
    have m: "list_all2 matches children (normalizePNodeContent ?T)"
      and cb: "childrenBack e sch (normalizePNodeContent ?T) children (Suc ?r) (nextRef (snd st2))"
      using each[of "d\<lparr> nextClock := Suc (nextClock d) \<rparr>"] by (simp_all add: ia)
    let ?Y = "XmlElement ?r ?it name ?a2 children"
    have iy: "integrate e (PrelimElement ?r name ?a2 cps) d = (?Y, d1)" by (simp add: ia)
    have live: "\<forall>t\<in>set children. \<not> yDeleted t" using matches_live[OF m] by blast
    have ta: "toArray ?Y = children" using live by (simp add: toArray_def visible_def filter_id_conv)
    have flagged: "map (\<lambda>c. (\<not> yDeleted c, c)) children = map (\<lambda>t. (True, t)) children"
      using live by simp
    have eq: "equalYTypePNode ?Y (PNodeC ?T)"
      by (subst equalYTypePNode.simps)
         (simp add: ta list_all2_lengthD[OF m] equalAttrs_created[OF p] equalMarks_created[OF p ok]
            matches_zip[OF m])
    have bn: "buildNode sch ?Y c = Some ?T"
      by (simp add: buildNode_def splitAttributes_created[OF p ok] sn)
    have bb: "buildsBack e sch ?T ?Y ?r (nextRef (snd st2))"
      unfolding buildsBack_def
    proof (intro allI impI)
      fix cst assume u: "unmapped ?r cst"
      then have "unmapped (Suc ?r) cst" by (rule unmapped_mono) simp
      then obtain cst1 where
        cc: "createChildren e sch (map (\<lambda>t. (True, t)) children) cst =
               (None, flatten (normalizePNodeContent ?T), children, cst1)"
        and u1: "unmapped (nextRef (snd st2)) cst1"
        using cb[unfolded childrenBack_def] by blast
      have fl: "flatten (normalizePNodeContent ?T) = c" using rt by (rule normalizePNodeContent_slots)
      have "createNodeFromYElement e sch ?Y cst = (None, Some ?T, ?Y, mappingSet ?r (PNodeC ?T) cst1)"
        by (subst createNodeFromYElement.simps) (simp add: flagged cc fl bn)
      moreover have "unmapped (nextRef (snd st2)) (mappingSet ?r (PNodeC ?T) cst1)"
        using u1 le by (intro unmapped_set) simp_all
      ultimately show "\<exists>cst'. createNodeFromYElement e sch ?Y cst = (None, Some ?T, ?Y, cst') \<and>
                         unmapped (nextRef (snd st2)) cst'"
        by blast
    qed
    show ?thesis unfolding iy using eq bb by simp
  qed
  show ?thesis
    unfolding nodeCreated_def cr using le int by (simp add: mappingSet_def)
qed

lemma nil_step: "typesCreated e sch [] st"
  by (simp add: typesCreated_def childrenBack_def createChildren.simps)

lemma texts_step:
  assumes h: "hashForm e" and run: "textRun sch nodes"
    and nxt: "(case ns of [] \<Rightarrow> True | s # _ \<Rightarrow> \<not> isArray s)"
    and Q: "typesCreated e sch ns (snd (createTypeFromTextNodes e nodes st))"
  shows "typesCreated e sch (PTexts nodes # ns) st"
proof -
  let ?r = "nextRef (snd st)"
  let ?delta = "deltaOf e (decide e (fst st)) nodes"
  obtain st1 where ct: "createTypeFromTextNodes e nodes st = (PrelimText ?r ?delta, st1)"
    and n1: "nextRef (snd st1) = Suc ?r"
    using createTypeFromTextNodes_created[OF h run, of st] by blast
  obtain ps st2 where cts: "createTypes e ns st1 = (ps, st2)" by (cases "createTypes e ns st1")
  have le: "Suc ?r \<le> nextRef (snd st2)"
    and each: "\<And>d. case integrateAll e ps d of
                 (ts, d') \<Rightarrow> list_all2 matches ts ns \<and>
                   childrenBack e sch ns ts (Suc ?r) (nextRef (snd st2))"
    using Q by (simp_all add: typesCreated_def ct cts n1)
  have cr: "createTypes e (PTexts nodes # ns) st = (PrelimText ?r ?delta # ps, st2)"
    by (simp add: ct cts)
  have int: "case integrateAll e (PrelimText ?r ?delta # ps) d of
               (ts, d') \<Rightarrow> list_all2 matches ts (PTexts nodes # ns) \<and>
                 childrenBack e sch (PTexts nodes # ns) ts ?r (nextRef (snd st2))" for d
  proof -
    let ?it = "\<lparr> item_client = clientID e, item_clock = nextClock d, item_deleted = False \<rparr>"
    let ?X = "XmlText ?r ?it (spread ?delta)"
    obtain ts d2 where ia: "integrateAll e ps (d\<lparr> nextClock := Suc (nextClock d) \<rparr>) = (ts, d2)"
      by (cases "integrateAll e ps (d\<lparr> nextClock := Suc (nextClock d) \<rparr>)")
    have m: "list_all2 matches ts ns"
      and cb: "childrenBack e sch ns ts (Suc ?r) (nextRef (snd st2))"
      using each[of "d\<lparr> nextClock := Suc (nextClock d) \<rparr>"] by (simp_all add: ia)
    have iy: "integrateAll e (PrelimText ?r ?delta # ps) d = (?X # ts, d2)" by (simp add: ia)
    have mx: "matches ?X (PTexts nodes)"
      unfolding matches_def
      by (subst equalYTypePNode.simps) (simp add: equalYTextPText_created[OF h run])
    have nx: "(case map (\<lambda>t. (True, t)) ts of [] \<Rightarrow> True | (v, t) # _ \<Rightarrow> \<not> isXmlText t)"
      using m nxt by (cases ts; cases ns) (auto simp: matches_def)
    have cbk: "childrenBack e sch (PTexts nodes # ns) (?X # ts) ?r (nextRef (snd st2))"
      unfolding childrenBack_def
    proof (intro allI impI)
      fix cst assume u: "unmapped ?r cst"
      then have "unmapped (Suc ?r) cst" by (rule unmapped_mono) simp
      then obtain cst1 where
        cc: "createChildren e sch (map (\<lambda>t. (True, t)) ts) cst = (None, flatten ns, ts, cst1)"
        and u1: "unmapped (nextRef (snd st2)) cst1"
        using cb[unfolded childrenBack_def] by blast
      show "\<exists>cst'. createChildren e sch (map (\<lambda>t. (True, t)) (?X # ts)) cst =
                     (None, flatten (PTexts nodes # ns), ?X # ts, cst') \<and>
                   unmapped (nextRef (snd st2)) cst'"
        using createChildren_text[OF h run nx cc] u1 by simp
    qed
    show ?thesis unfolding iy using m mx cbk by simp
  qed
  show ?thesis unfolding typesCreated_def cr using le int by simp
qed

lemma node_step:
  assumes P: "nodeCreated e sch n st"
    and Q: "typesCreated e sch ns (snd (createTypeFromElementNode e n st))"
  shows "typesCreated e sch (PNodeC n # ns) st"
proof -
  let ?r = "nextRef (snd st)"
  obtain p st1 where ct: "createTypeFromElementNode e n st = (p, st1)"
    by (cases "createTypeFromElementNode e n st")
  obtain ps st2 where cts: "createTypes e ns st1 = (ps, st2)" by (cases "createTypes e ns st1")
  have lt: "?r < nextRef (snd st1)"
    and one: "\<And>d. case integrate e p d of
                (t, d') \<Rightarrow> isXmlElement t \<and> yref t = ?r \<and> \<not> yDeleted t \<and>
                  equalYTypePNode t (PNodeC n) \<and> buildsBack e sch n t ?r (nextRef (snd st1))"
    using P by (simp_all add: nodeCreated_def ct del: createTypeFromElementNode.simps)
  have le: "nextRef (snd st1) \<le> nextRef (snd st2)"
    and each: "\<And>d. case integrateAll e ps d of
                 (ts, d') \<Rightarrow> list_all2 matches ts ns \<and>
                   childrenBack e sch ns ts (nextRef (snd st1)) (nextRef (snd st2))"
    using Q by (simp_all add: typesCreated_def ct cts del: createTypeFromElementNode.simps)
  have cr: "createTypes e (PNodeC n # ns) st = (p # ps, st2)"
    by (simp add: ct cts del: createTypeFromElementNode.simps)
  have int: "case integrateAll e (p # ps) d of
               (ts, d') \<Rightarrow> list_all2 matches ts (PNodeC n # ns) \<and>
                 childrenBack e sch (PNodeC n # ns) ts ?r (nextRef (snd st2))" for d
  proof -
    obtain t d1 where it: "integrate e p d = (t, d1)" by (cases "integrate e p d")
    obtain ts d2 where ia: "integrateAll e ps d1 = (ts, d2)" by (cases "integrateAll e ps d1")
    have el: "isXmlElement t" and rf: "yref t = ?r" and lv: "\<not> yDeleted t"
      and eq: "equalYTypePNode t (PNodeC n)"
      and bb: "buildsBack e sch n t ?r (nextRef (snd st1))"
      using one[of d] by (simp_all add: it)
    have m: "list_all2 matches ts ns"
      and cb: "childrenBack e sch ns ts (nextRef (snd st1)) (nextRef (snd st2))"
      using each[of d1] by (simp_all add: ia)
    have iy: "integrateAll e (p # ps) d = (t # ts, d2)" by (simp add: it ia)
    have mx: "matches t (PNodeC n)" using el lv eq by (cases t) (simp_all add: matches_def)
    have cbk: "childrenBack e sch (PNodeC n # ns) (t # ts) ?r (nextRef (snd st2))"
      unfolding childrenBack_def
    proof (intro allI impI)
      fix cst assume u: "unmapped ?r cst"
      obtain cst1 where cn: "createNodeFromYElement e sch t cst = (None, Some n, t, cst1)"
        and u1: "unmapped (nextRef (snd st1)) cst1"
        using bb[unfolded buildsBack_def] u by blast
      obtain cst2 where
        cc: "createChildren e sch (map (\<lambda>t. (True, t)) ts) cst1 = (None, flatten ns, ts, cst2)"
        and u2: "unmapped (nextRef (snd st2)) cst2"
        using cb[unfolded childrenBack_def] u1 by blast
      have fr: "mapping (fst cst) (yref t) = None" using unmapped_at[OF u] rf by simp
      show "\<exists>cst'. createChildren e sch (map (\<lambda>t. (True, t)) (t # ts)) cst =
                     (None, flatten (PNodeC n # ns), t # ts, cst') \<and>
                   unmapped (nextRef (snd st2)) cst'"
        using createChildren_element[OF el fr cn cc] u2 by simp
    qed
    show ?thesis unfolding iy using m mx cbk by simp
  qed
  show ?thesis unfolding typesCreated_def cr using lt le int by simp
qed

lemma created_all:
  "hashForm e \<Longrightarrow> \<not> isText T \<Longrightarrow> roundTrips sch T \<Longrightarrow> nodeCreated e sch T st"
  "hashForm e \<Longrightarrow> list_all (slotOk sch) slots \<Longrightarrow> noAdjacentTexts slots \<Longrightarrow>
   typesCreated e sch slots st"
proof (induction e T st and e slots st rule: createTypeFromElementNode_createTypes.induct)
  case (1 e node st)
  obtain name a c ms where T: "node = PElement name a c ms" using 1(3) by (cases node) simp_all
  have rt: "roundTrips sch (PElement name a c ms)" using 1(4) T by simp
  note s = normalizePNodeContent_slots[OF rt]
  have "typesCreated e sch (normalizePNodeContent node) (snd (newType st))"
    using 1(1)[OF refl prod.collapse refl refl refl 1(2)] s(1,2) T by simp
  then show ?case using element_step[OF 1(2) rt] T by simp
next
  case (2 e st)
  show ?case by (rule nil_step)
next
  case (3 e nodes ns st)
  have run: "textRun sch nodes" and all: "list_all (slotOk sch) ns" using 3(3) by simp_all
  have adj: "noAdjacentTexts ns" and nxt: "(case ns of [] \<Rightarrow> True | s # _ \<Rightarrow> \<not> isArray s)"
    using 3(4) by (cases ns; simp)+
  show ?case using texts_step[OF 3(2) run nxt 3(1)[OF refl prod.collapse 3(2) all adj]] .
next
  case (4 e node ns st)
  have nt: "\<not> isText node" and rt: "roundTrips sch node" and all: "list_all (slotOk sch) ns"
    using 4(4) by simp_all
  have adj: "noAdjacentTexts ns" using 4(5) by (cases ns) simp_all
  show ?case
    using node_step[OF 4(1)[OF 4(3) nt rt] 4(2)[OF refl prod.collapse 4(3) all adj]] .
qed

text \<open>
  Claim C1, amended. Let the hash have the form that the decoding strips, let \<open>T\<close> be a
  node that is no text node and satisfies the conditions of the round trip, and let the
  mapping table be fresh. Let the type that \<open>createTypeFromElementNode\<close> creates for \<open>T\<close> be
  inserted into a document. Then \<open>createNodeFromYElement\<close>, given the inserted type,
  returns \<open>T\<close> without an error and leaves the type as it is, and \<open>equalYTypePNode\<close>
  judges the type equal to \<open>T\<close>.
\<close>

theorem createNodeFromYElement_round_trip:
  assumes h: "hashForm e" and nt: "\<not> isText T" and rt: "roundTrips sch T"
    and fresh: "mapping (fst cst) = Map.empty"
  shows "fst (createNodeFromYElement e sch (insertedType e T st d) cst) = None \<and>
         fst (snd (createNodeFromYElement e sch (insertedType e T st d) cst)) = Some T \<and>
         fst (snd (snd (createNodeFromYElement e sch (insertedType e T st d) cst))) =
           insertedType e T st d \<and>
         equalYTypePNode (insertedType e T st d) (PNodeC T)"
proof -
  obtain P st' where cr: "createTypeFromElementNode e T st = (P, st')"
    by (cases "createTypeFromElementNode e T st")
  obtain Y d' where iy: "integrate e P d = (Y, d')" by (cases "integrate e P d")
  have "case integrate e P d of
          (Y, d') \<Rightarrow> isXmlElement Y \<and> yref Y = nextRef (snd st) \<and> \<not> yDeleted Y \<and>
            equalYTypePNode Y (PNodeC T) \<and>
            buildsBack e sch T Y (nextRef (snd st)) (nextRef (snd st'))"
    using created_all(1)[OF h nt rt, of st]
    by (simp add: nodeCreated_def cr del: createTypeFromElementNode.simps)
  then have eq: "equalYTypePNode Y (PNodeC T)"
    and bb: "buildsBack e sch T Y (nextRef (snd st)) (nextRef (snd st'))"
    by (simp_all add: iy)
  have "unmapped (nextRef (snd st)) cst" using fresh by (simp add: unmapped_def)
  then obtain cst' where "createNodeFromYElement e sch Y cst = (None, Some T, Y, cst')"
    using bb[unfolded buildsBack_def] by blast
  then show ?thesis using eq by (simp add: insertedType_def cr iy del: createTypeFromElementNode.simps)
qed

text \<open>
  The article satisfies the conditions.
\<close>

lemma plain_em: "plainName ''em''"
  by (simp add: plainName_def endsWithHash_def isHashSuffix_def isLineTerminator_def)

lemma plain_comment: "plainName ''comment''"
  by (simp add: plainName_def endsWithHash_def isHashSuffix_def isLineTerminator_def)

lemma hashForm_exEnv: "hashForm exEnv"
  by (simp add: hashForm_def exEnv_def isHashChar_def)

lemma roundTrips_exArticle: "roundTrips exDocSchema exArticle"
  by (simp add: exArticle_def exDocSchema_def exEm_def exComment_def plainAttrs_def
      nodeMarksOk_def textMarksOk_def jsonAttrs_def attrOr_def plain_em plain_comment
      startsWith_def MarkPrefix_def)

theorem createNodeFromYElement_round_trip_witness:
  "hashForm exEnv \<and> \<not> isText exArticle \<and> roundTrips exDocSchema exArticle \<and>
   mapping (fst exState) = Map.empty \<and>
   fst (createNodeFromYElement exEnv exDocSchema
          (insertedType exEnv exArticle exState (snd exState)) exState) = None \<and>
   fst (snd (createNodeFromYElement exEnv exDocSchema
          (insertedType exEnv exArticle exState (snd exState)) exState)) = Some exArticle \<and>
   equalYTypePNode (insertedType exEnv exArticle exState (snd exState)) (PNodeC exArticle)"
proof -
  have nt: "\<not> isText exArticle" by (simp add: exArticle_def)
  have fresh: "mapping (fst exState) = Map.empty" by (simp add: exState_def emptyMeta_def)
  show ?thesis
    using createNodeFromYElement_round_trip
            [OF hashForm_exEnv nt roundTrips_exArticle fresh, of exState "snd exState"]
      hashForm_exEnv nt roundTrips_exArticle fresh
    by simp
qed

text \<open>
  Claim C1 as stated fails. The type that \<open>createTypeFromElementNode\<close> creates is
  preliminary: given as it is, it reads as an element without content, so that for a
  paragraph of plain text \<open>createNodeFromYElement\<close> returns an empty paragraph and
  \<open>equalYTypePNode\<close> judges the type different from the paragraph. And a change
  attribution is not stored: for a paragraph that carries one, the node built back from
  the inserted type lacks it, and \<open>equalYTypePNode\<close> judges the inserted type different
  from the paragraph.
\<close>

theorem createNodeFromYElement_round_trip_counterexample:
  "fst (snd (createNodeFromYElement_prelim exDocSchema
               (fst (createTypeFromElementNode exEnv exPlain exState)) exState)) =
     Some (PElement ''paragraph'' [(''ychange'', JNull)] [] []) \<and>
   \<not> equalYTypePNode_prelim (fst (createTypeFromElementNode exEnv exPlain exState)) (PNodeC exPlain) \<and>
   fst (snd (createNodeFromYElement exEnv exDocSchema
               (insertedType exEnv exChanged exState (snd exState)) exState)) =
     Some (PElement ''paragraph'' [(''ychange'', JNull)] [] []) \<and>
   \<not> equalYTypePNode (insertedType exEnv exChanged exState (snd exState)) (PNodeC exChanged)"
proof -
  have cp: "fst (createTypeFromElementNode exEnv exPlain exState) =
              PrelimElement 100 ''paragraph'' [] [PrelimText 101 [(''ab'', [])]]"
    by (simp add: exPlain_def exEnv_def exState_def newType_def nodeMarksToAttributes_def
        normalizePNodeContent_def createTypeFromTextNodes_def textDelta_def
        marksToAttributes_def mappingSet_def Let_def)
  have direct: "fst (snd (createNodeFromYElement_prelim exDocSchema
                   (PrelimElement 100 ''paragraph'' [] [PrelimText 101 [(''ab'', [])]]) exState)) =
                Some (PElement ''paragraph'' [(''ychange'', JNull)] [] [])"
    by (simp add: createNodeFromYElement_prelim_def exDocSchema_def attrOr_def)
  have ne1: "\<not> equalYTypePNode_prelim
                 (PrelimElement 100 ''paragraph'' [] [PrelimText 101 [(''ab'', [])]]) (PNodeC exPlain)"
    by (simp add: equalYTypePNode_prelim_def exPlain_def normalizePNodeContent_def)
  have cr: "insertedType exEnv exChanged exState (snd exState) =
              XmlElement 100 (liveItem 1 50) ''paragraph'' [] []"
    by (simp add: insertedType_def exChanged_def exEnv_def exState_def newType_def
        nodeMarksToAttributes_def normalizePNodeContent_def liveItem_def)
  have built: "fst (snd (createNodeFromYElement exEnv exDocSchema
                 (XmlElement 100 (liveItem 1 50) ''paragraph'' [] []) exState)) =
              Some (PElement ''paragraph'' [(''ychange'', JNull)] [] [])"
    by (simp add: createNodeFromYElement.simps createChildren.simps buildNode_def exDocSchema_def
        attrOr_def)
  have ne2: "\<not> equalYTypePNode (XmlElement 100 (liveItem 1 50) ''paragraph'' [] []) (PNodeC exChanged)"
    by (subst equalYTypePNode.simps)
       (simp add: exChanged_def normalizePNodeContent_def toArray_def visible_def
          equalAttrs.simps)
  show ?thesis unfolding cp cr using direct ne1 built ne2 by simp
qed

text \<open>
  Two marks of one overlapping type on one text node: the node is built back as it was,
  but \<open>equalYTextPText\<close> looks a mark up by the name of its type, finds the first of the
  two for both attributes, and judges the run different from the text node.
\<close>

lemma equalYTypePNode_overlapping_marks:
  "fst (snd (createNodeFromYElement exHashEnv exDocSchema
               (insertedType exHashEnv exOverlap exState (snd exState)) exState)) =
     Some exOverlap \<and>
   \<not> equalYTypePNode (insertedType exHashEnv exOverlap exState (snd exState)) (PNodeC exOverlap)"
proof -
  let ?a = "[(''comment--ABCDEFGH'', [(''id'', JNum 1)]), (''comment--abcdefgh'', [(''id'', JNum 2)])]"
  let ?X = "XmlText 101 (liveItem 1 51) [(CHR ''a'', ?a), (CHR ''b'', ?a)]"
  let ?Y = "XmlElement 100 (liveItem 1 50) ''paragraph'' [] [?X]"
  have cr: "insertedType exHashEnv exOverlap exState (snd exState) = ?Y"
    by (simp add: insertedType_def exOverlap_def exHashEnv_def exState_def newType_def
        nodeMarksToAttributes_def normalizePNodeContent_def liveItem_def
        createTypeFromTextNodes_def textDelta_def marksToAttributes_def exComment_def
        markToJSON_def emptyMeta_def spread_def mappingSet_def Let_def)
  have d1: "yattr2markname ''comment--ABCDEFGH'' = ''comment''"
    by (simp add: yattr2markname_def matchHere_def isHashSuffix_def isHashChar_def
        isLineTerminator_def)
  have d2: "yattr2markname ''comment--abcdefgh'' = ''comment''"
    by (simp add: yattr2markname_def matchHere_def isHashSuffix_def isHashChar_def
        isLineTerminator_def)
  have delta: "toDelta ?X = [(''ab'', ?a)]" by (simp add: sameTextAttrs_def)
  have built: "fst (snd (createNodeFromYElement exHashEnv exDocSchema ?Y exState)) = Some exOverlap"
    by (simp add: createNodeFromYElement.simps createChildren.simps buildNode_def exDocSchema_def
        mergeFollower_def createTextNodesFromYText_def sameTextAttrs_def d1 d2 exOverlap_def
        exComment_def liveItem_def attrOr_def)
  have ne: "\<not> equalYTextPText ?X [PText ''ab'' [exComment 1, exComment 2]]"
    unfolding equalYTextPText_def delta
    by (simp add: d1 d2 exComment_def equalAttrs.simps equalityDeep.simps)
  have "\<not> equalYTypePNode ?X (PTexts [PText ''ab'' [exComment 1, exComment 2]])"
    using ne by (subst equalYTypePNode.simps) simp
  then have "\<not> equalYTypePNode ?Y (PNodeC exOverlap)"
    by (subst equalYTypePNode.simps)
       (simp add: exOverlap_def normalizePNodeContent_def toArray_def visible_def liveItem_def)
  then show ?thesis unfolding cr using built by simp
qed

end
